theory Spec2Isabelle
  imports Main
begin

section \<open>The launcher \<open>tools/generate_package_config.py\<close>\<close>

text \<open>
  The script computes three paths from its own location, builds a two-entry environment,
  runs the checked-in \<open>dart\<close> binary with \<open>pub get --offline\<close> and exits with the
  child's return code. Everything the script reads from outside (the platform identifier,
  \<open>__file__\<close>, the file system behind \<open>os.path.realpath\<close>, the parent's environment and
  the behaviour of the child process) is a field of the record \<open>host\<close>; everything it
  does to the outside (the one call of \<open>subprocess.run\<close>) is logged as a \<open>call\<close>.
\<close>

subsection \<open>String methods used by \<open>os.path\<close>\<close>

text \<open>\<open>s.rfind(c)\<close>: the highest index of \<open>c\<close> in \<open>s\<close>, and \<open>-1\<close> when there is none.\<close>

fun str_rfind :: "string \<Rightarrow> char \<Rightarrow> int" where
  "str_rfind [] c = - 1"
| "str_rfind (x # xs) c =
     (let r = str_rfind xs c
      in if r \<noteq> - 1 then r + 1 else if x = c then 0 else - 1)"

text \<open>
  \<open>s.find(c, start)\<close>: the lowest index of \<open>c\<close> in \<open>s\<close> from \<open>start\<close> on, and \<open>-1\<close> when
  there is none.
\<close>

fun str_index :: "string \<Rightarrow> char \<Rightarrow> int" where
  "str_index [] c = - 1"
| "str_index (x # xs) c =
     (if x = c then 0 else let r = str_index xs c in if r = - 1 then - 1 else r + 1)"

definition str_find :: "string \<Rightarrow> char \<Rightarrow> nat \<Rightarrow> int" where
  "str_find s c start =
     (let r = str_index (drop start s) c in if r = - 1 then - 1 else int start + r)"

text \<open>\<open>s.rstrip(chars)\<close>: drop every trailing character that is one of \<open>chars\<close>.\<close>

definition str_rstrip :: "string \<Rightarrow> string \<Rightarrow> string" where
  "str_rstrip s chars = rev (dropWhile (\<lambda>x. x \<in> set chars) (rev s))"

definition startswith :: "string \<Rightarrow> char \<Rightarrow> bool" where
  "startswith s c = (case s of [] \<Rightarrow> False | x # _ \<Rightarrow> x = c)"

definition endswith :: "string \<Rightarrow> char \<Rightarrow> bool" where
  "endswith s c = (case rev s of [] \<Rightarrow> False | x # _ \<Rightarrow> x = c)"

text \<open>\<open>s.replace(a, b)\<close> for one-character \<open>a\<close> and \<open>b\<close>.\<close>

definition str_replace :: "string \<Rightarrow> char \<Rightarrow> char \<Rightarrow> string" where
  "str_replace s a b = map (\<lambda>x. if x = a then b else x) s"

text \<open>
  \<open>s.upper()\<close> and \<open>s.lower()\<close> on the letters of ASCII; the paths are byte strings,
  and the other bytes stay as they are.
\<close>

definition ascii_upper :: "char \<Rightarrow> char" where
  "ascii_upper c =
     (case map_of (zip ''abcdefghijklmnopqrstuvwxyz'' ''ABCDEFGHIJKLMNOPQRSTUVWXYZ'') c of
        None \<Rightarrow> c | Some u \<Rightarrow> u)"

definition ascii_lower :: "char \<Rightarrow> char" where
  "ascii_lower c =
     (case map_of (zip ''ABCDEFGHIJKLMNOPQRSTUVWXYZ'' ''abcdefghijklmnopqrstuvwxyz'') c of
        None \<Rightarrow> c | Some l \<Rightarrow> l)"

definition str_upper :: "string \<Rightarrow> string" where
  "str_upper s = map ascii_upper s"

definition str_lower :: "string \<Rightarrow> string" where
  "str_lower s = map ascii_lower s"

subsection \<open>\<open>posixpath\<close>: \<open>os.path\<close> on every platform but Windows\<close>

text \<open>
  \<open>join\<close>, \<open>dirname\<close> and \<open>basename\<close> as \<open>posixpath.py\<close> of CPython 3.11 defines
  them, on strings of bytes; the separator is \<open>/\<close>.
\<close>

definition sep :: char where
  "sep = CHR ''/''"

text \<open>
  One round of the loop of \<open>posixpath.join\<close>: an absolute component replaces the path,
  an empty path or one ending in the separator is extended as it is, and otherwise a
  separator is put in between.
\<close>

definition join_step :: "string \<Rightarrow> string \<Rightarrow> string" where
  "join_step path b =
     (if startswith b sep then b
      else if path = [] \<or> endswith path sep then path @ b
      else path @ [sep] @ b)"

definition posixpath_join :: "string \<Rightarrow> string list \<Rightarrow> string" where
  "posixpath_join a p = foldl join_step a p"

text \<open>
  \<open>posixpath.dirname\<close>: everything up to the last separator, with the trailing
  separators removed unless the head consists of separators only.
\<close>

definition posixpath_dirname :: "string \<Rightarrow> string" where
  "posixpath_dirname p =
     (let i = str_rfind p sep + 1;
          head = take (nat i) p
      in if head \<noteq> [] \<and> head \<noteq> replicate (length head) sep
         then str_rstrip head [sep] else head)"

definition posixpath_basename :: "string \<Rightarrow> string" where
  "posixpath_basename p = (let i = str_rfind p sep + 1 in drop (nat i) p)"

subsection \<open>\<open>ntpath\<close>: \<open>os.path\<close> on Windows\<close>

text \<open>
  \<open>splitdrive\<close>, \<open>split\<close>, \<open>dirname\<close>, \<open>basename\<close> and \<open>join\<close> as \<open>ntpath.py\<close> of
  CPython 3.11 defines them, on strings of bytes; the separators are the backslash and
  \<open>/\<close>.
\<close>

definition bsl :: char where
  "bsl = CHR 0x5C"

definition altsep :: char where
  "altsep = CHR ''/''"

definition colon :: char where
  "colon = CHR '':''"

definition seps :: string where
  "seps = [bsl, altsep]"

definition unc_prefix :: string where
  "unc_prefix = [bsl, bsl, CHR ''?'', bsl, CHR ''U'', CHR ''N'', CHR ''C'', bsl]"

text \<open>
  \<open>ntpath.splitdrive\<close>: the drive is a letter and a colon, or, for a path that begins
  with two separators, everything up to the second separator after the start (the
  start is behind the prefix of an extended UNC path); the drive and the rest always
  add up to the path.
\<close>

definition ntpath_splitdrive :: "string \<Rightarrow> string \<times> string" where
  "ntpath_splitdrive p =
     (if 2 \<le> length p then
        let normp = str_replace p altsep bsl
        in if take 2 normp = [bsl, bsl] then
             let start = (if str_upper (take 8 normp) = unc_prefix then 8 else 2);
                 index = str_find normp bsl start
             in if index = - 1 then (p, [])
                else let index2 = str_find normp bsl (nat (index + 1))
                     in if index2 = - 1 then (p, [])
                        else (take (nat index2) p, drop (nat index2) p)
           else if take 1 (drop 1 normp) = [colon] then (take 2 p, drop 2 p)
           else ([], p)
      else ([], p))"

text \<open>
  The loop of \<open>ntpath.split\<close> that moves \<open>i\<close> down from the end while the character
  before it is no separator.
\<close>

fun split_index :: "string \<Rightarrow> nat \<Rightarrow> nat" where
  "split_index p 0 = 0"
| "split_index p (Suc i) = (if p ! i \<notin> set seps then split_index p i else Suc i)"

definition ntpath_split :: "string \<Rightarrow> string \<times> string" where
  "ntpath_split p0 =
     (let (d, p) = ntpath_splitdrive p0;
          i = split_index p (length p);
          head = take i p;
          tail = drop i p;
          head = (if str_rstrip head seps \<noteq> [] then str_rstrip head seps else head)
      in (d @ head, tail))"

definition ntpath_dirname :: "string \<Rightarrow> string" where
  "ntpath_dirname p = fst (ntpath_split p)"

definition ntpath_basename :: "string \<Rightarrow> string" where
  "ntpath_basename p = snd (ntpath_split p)"

text \<open>
  One round of the loop of \<open>ntpath.join\<close> on the pair of the result's drive and path:
  an absolute component replaces the path (and the drive, when it has one or the result
  has none), a component on another drive replaces both, and any other component is
  appended, behind a separator when the path does not end in one.
\<close>

definition nt_join_step :: "string \<times> string \<Rightarrow> string \<Rightarrow> string \<times> string" where
  "nt_join_step res p =
     (let (result_drive, result_path) = res;
          (p_drive, p_path) = ntpath_splitdrive p
      in if p_path \<noteq> [] \<and> hd p_path \<in> set seps then
           ((if p_drive \<noteq> [] \<or> result_drive = [] then p_drive else result_drive), p_path)
         else if p_drive \<noteq> [] \<and> p_drive \<noteq> result_drive
                 \<and> str_lower p_drive \<noteq> str_lower result_drive then
           (p_drive, p_path)
         else
           let result_drive =
                 (if p_drive \<noteq> [] \<and> p_drive \<noteq> result_drive then p_drive else result_drive);
               result_path =
                 (if result_path \<noteq> [] \<and> last result_path \<notin> set seps
                  then result_path @ [bsl] else result_path)
           in (result_drive, result_path @ p_path))"

definition ntpath_join :: "string \<Rightarrow> string list \<Rightarrow> string" where
  "ntpath_join path paths =
     (let (result_drive, result_path) = foldl nt_join_step (ntpath_splitdrive path) paths
      in if result_path \<noteq> [] \<and> hd result_path \<notin> set seps
            \<and> result_drive \<noteq> [] \<and> last result_drive \<noteq> colon
         then result_drive @ [bsl] @ result_path
         else result_drive @ result_path)"

subsection \<open>The host and the child process\<close>

text \<open>
  \<open>subprocess.run\<close> without \<open>check\<close> and without \<open>timeout\<close> has three outcomes: the
  child ran and ended with a return code (on POSIX the negated signal number when a
  signal ended it); the child could not be started and an \<open>OSError\<close> is raised
  (\<open>FileNotFoundError\<close> for a missing executable, \<open>PermissionError\<close> for a file that is
  not executable); or the child never ends and the call never returns.
\<close>

datatype os_error = FileNotFoundError | PermissionError | OSError

datatype run_result = CompletedProcess int | Raised os_error | NeverCompletes

record call =
  args :: "string list"
  cwd :: string
  env :: "string \<rightharpoonup> string"

record host =
  platform_system :: string
  script_file :: string
  os_path_realpath :: "string \<Rightarrow> string"
  os_environ :: "string \<rightharpoonup> string"
  subprocess_run :: "call \<Rightarrow> run_result"

text \<open>
  CPython binds \<open>os.path\<close> to \<open>ntpath\<close> where \<open>os.name\<close> is \<open>nt\<close> and to \<open>posixpath\<close>
  elsewhere, and \<open>os.name\<close> is \<open>nt\<close> on exactly the hosts whose \<open>platform.system()\<close>
  is \<open>Windows\<close>.
\<close>

datatype path_module = posixpath | ntpath

definition os_path :: "host \<Rightarrow> path_module" where
  "os_path h = (if platform_system h = ''Windows'' then ntpath else posixpath)"

fun os_path_join :: "path_module \<Rightarrow> string \<Rightarrow> string list \<Rightarrow> string" where
  "os_path_join posixpath a p = posixpath_join a p"
| "os_path_join ntpath a p = ntpath_join a p"

fun os_path_dirname :: "path_module \<Rightarrow> string \<Rightarrow> string" where
  "os_path_dirname posixpath p = posixpath_dirname p"
| "os_path_dirname ntpath p = ntpath_dirname p"

fun os_path_basename :: "path_module \<Rightarrow> string \<Rightarrow> string" where
  "os_path_basename posixpath p = posixpath_basename p"
| "os_path_basename ntpath p = ntpath_basename p"

text \<open>What a Python function does: return a value, raise, or never come back.\<close>

datatype 'a outcome = Return 'a | Raise os_error | Diverge

text \<open>
  How the interpreter ends. An exception nobody catches prints a traceback and ends it
  with status 1. \<open>sys.exit(n)\<close> converts \<open>n\<close> to a C \<open>long\<close> (64 bits on a 64-bit POSIX
  host, 32 on Windows; a value that does not fit becomes \<open>-1\<close>) and hands it to \<open>exit\<close>, and the
  status of the process is what the platform keeps of it: the low 8 bits on POSIX, the
  32 bits on Windows.
\<close>

datatype process_end = SystemExit int | UncaughtException os_error | NeverExits

definition long_bits :: "host \<Rightarrow> nat" where
  "long_bits h = (if platform_system h = ''Windows'' then 32 else 64)"

definition status_bits :: "host \<Rightarrow> nat" where
  "status_bits h = (if platform_system h = ''Windows'' then 32 else 8)"

definition sys_exit_status :: "host \<Rightarrow> int \<Rightarrow> int" where
  "sys_exit_status h n =
     (let exitcode = (if - (2 ^ (long_bits h - 1)) \<le> n \<and> n < 2 ^ (long_bits h - 1)
                      then n else - 1)
      in exitcode mod 2 ^ status_bits h)"

fun exit_status :: "host \<Rightarrow> process_end \<Rightarrow> int option" where
  "exit_status h (SystemExit n) = Some (sys_exit_status h n)"
| "exit_status h (UncaughtException e) = Some 1"
| "exit_status h NeverExits = None"

subsection \<open>The script\<close>

definition is_windows :: "host \<Rightarrow> bool" where
  "is_windows h = (let os_id = platform_system h in os_id = ''Windows'')"

definition checked_in_sdk_path :: "host \<Rightarrow> string" where
  "checked_in_sdk_path h =
     (let tools_dir = os_path_dirname (os_path h) (os_path_realpath h (script_file h))
      in os_path_join (os_path h) tools_dir [''sdks'', ''dart-sdk''])"

definition checked_in_sdk_executable :: "host \<Rightarrow> string" where
  "checked_in_sdk_executable h =
     (let name = ''dart'';
          name = (if is_windows h then ''dart.exe'' else name)
      in os_path_join (os_path h) (checked_in_sdk_path h) [''bin'', name])"

text \<open>
  The result is the list of the calls of \<open>subprocess.run\<close> that were made, and what the
  function did afterwards.
\<close>

definition generate_package_config :: "host \<Rightarrow> call list \<times> int outcome" where
  "generate_package_config h =
     (let sdk_dir = os_path_dirname (os_path h)
                      (os_path_dirname (os_path h) (os_path_realpath h (script_file h)));
          c = \<lparr>args = [checked_in_sdk_executable h, ''pub'', ''get'', ''--offline''],
               cwd = sdk_dir,
               env = [''PUB_HOSTED_URL'' \<mapsto> ''http://fake/pub'',
                      ''PUB_CACHE'' \<mapsto>
                        os_path_join (os_path h) sdk_dir [''.dart_tool/sdk_pub_cache'']]\<rparr>
      in ([c], case subprocess_run h c of
                 CompletedProcess returncode \<Rightarrow> Return returncode
               | Raised e \<Rightarrow> Raise e
               | NeverCompletes \<Rightarrow> Diverge))"

definition Main :: "host \<Rightarrow> call list \<times> process_end" where
  "Main h =
     (case generate_package_config h of
        (calls, Return code) \<Rightarrow> (calls, SystemExit code)
      | (calls, Raise e) \<Rightarrow> (calls, UncaughtException e)
      | (calls, Diverge) \<Rightarrow> (calls, NeverExits))"

subsection \<open>Paths as lists of names\<close>

text \<open>
  \<open>os.path.realpath\<close> returns an absolute, normalised path: a root followed by names
  that are separated by single separators. On POSIX the root is one or more slashes
  (exactly two leading slashes are kept apart from one); on Windows it is a drive, as
  \<open>ntpath.splitdrive\<close> finds it (\<open>C:\<close>, a UNC share, a device), and one backslash.
  \<open>abs_path m r cs\<close> is the string of the root \<open>r\<close> and the names \<open>cs\<close> in the path
  module \<open>m\<close>; the statements below say on this structure what the string operations of
  the script compute.
\<close>

fun pm_sep :: "path_module \<Rightarrow> char" where
  "pm_sep posixpath = sep"
| "pm_sep ntpath = bsl"

fun pm_seps :: "path_module \<Rightarrow> string" where
  "pm_seps posixpath = [sep]"
| "pm_seps ntpath = seps"

fun is_root :: "path_module \<Rightarrow> string \<Rightarrow> bool" where
  "is_root posixpath r = (r \<noteq> [] \<and> list_all (\<lambda>x. x = sep) r)"
| "is_root ntpath r = (case ntpath_splitdrive r of (d, p) \<Rightarrow> d \<noteq> [] \<and> p = [bsl])"

definition is_component :: "path_module \<Rightarrow> string \<Rightarrow> bool" where
  "is_component m c = (c \<noteq> [] \<and> list_all (\<lambda>x. x \<notin> set (pm_seps m)) c)"

fun abs_path :: "path_module \<Rightarrow> string \<Rightarrow> string list \<Rightarrow> string" where
  "abs_path m r [] = r"
| "abs_path m r (c # cs) = r @ c @ concat (map (\<lambda>d. pm_sep m # d) cs)"

text \<open>The script's real path is the absolute path with root \<open>r\<close> and names \<open>cs\<close>.\<close>

definition located_at :: "host \<Rightarrow> string \<Rightarrow> string list \<Rightarrow> bool" where
  "located_at h r cs =
     (is_root (os_path h) r \<and> list_all (is_component (os_path h)) cs \<and>
      os_path_realpath h (script_file h) = abs_path (os_path h) r cs)"

text \<open>
  Reading a path string back: \<open>split_by\<close> cuts a string at every character of a set,
  the names of a path are the non-empty pieces of what follows its drive (POSIX paths
  have no drive), and a path is inside a directory when both are on the same drive and
  the directory's names are a proper prefix of its own.
\<close>

fun split_by :: "string \<Rightarrow> string \<Rightarrow> string list" where
  "split_by cs [] = [[]]"
| "split_by cs (x # xs) =
     (if x \<in> set cs then [] # split_by cs xs
      else case split_by cs xs of [] \<Rightarrow> [[x]] | w # ws \<Rightarrow> (x # w) # ws)"

fun path_drive :: "path_module \<Rightarrow> string \<Rightarrow> string" where
  "path_drive posixpath p = []"
| "path_drive ntpath p = fst (ntpath_splitdrive p)"

fun path_components :: "path_module \<Rightarrow> string \<Rightarrow> string list" where
  "path_components posixpath p = filter (\<lambda>w. w \<noteq> []) (split_by [sep] p)"
| "path_components ntpath p =
     filter (\<lambda>w. w \<noteq> []) (split_by seps (snd (ntpath_splitdrive p)))"

definition inside :: "path_module \<Rightarrow> string \<Rightarrow> string \<Rightarrow> bool" where
  "inside m p d =
     (let ds = path_components m d; ps = path_components m p
      in path_drive m p = path_drive m d \<and>
         length ds < length ps \<and> take (length ds) ps = ds)"

text \<open>
  The host that a URL points to: what stands between the two slashes behind the scheme
  and the next slash.
\<close>

definition url_host :: "string \<Rightarrow> string" where
  "url_host u =
     takeWhile (\<lambda>c. c \<noteq> CHR ''/'') (drop 2 (dropWhile (\<lambda>c. c \<noteq> CHR ''/'') u))"

subsection \<open>Two concrete hosts\<close>

text \<open>
  A POSIX host with a checkout at \<open>/sdk\<close> and two symbolic links to the script
  elsewhere in the file system, and a Windows host with a checkout on drive \<open>C:\<close> and a
  link to the script on drive \<open>D:\<close>. The parent environment sets \<open>PATH\<close> and
  \<open>PUB_CACHE\<close>, and the child's behaviour is given.
\<close>

definition example_realpath :: "string \<Rightarrow> string" where
  "example_realpath p =
     (if p = ''/usr/local/bin/gen'' \<or> p = ''/home/dev/gen.py''
      then ''/sdk/tools/generate_package_config.py'' else p)"

definition example_host :: "string \<Rightarrow> string \<Rightarrow> run_result \<Rightarrow> host" where
  "example_host os_id file res =
     \<lparr>platform_system = os_id,
      script_file = file,
      os_path_realpath = example_realpath,
      os_environ = [''PATH'' \<mapsto> ''/usr/bin'', ''PUB_CACHE'' \<mapsto> ''/home/dev/.pub-cache''],
      subprocess_run = (\<lambda>c. res)\<rparr>"

definition windows_realpath :: "string \<Rightarrow> string" where
  "windows_realpath p =
     (if p = ''D:'' @ bsl # ''links'' @ bsl # ''gen.py''
      then ''C:'' @ bsl # ''sdk'' @ bsl # ''tools'' @ bsl # ''generate_package_config.py''
      else p)"

definition windows_host :: "run_result \<Rightarrow> host" where
  "windows_host res =
     \<lparr>platform_system = ''Windows'',
      script_file = ''D:'' @ bsl # ''links'' @ bsl # ''gen.py'',
      os_path_realpath = windows_realpath,
      os_environ = [''PATH'' \<mapsto> ''C:'' @ bsl # ''Windows'',
                    ''PUB_CACHE'' \<mapsto> ''D:'' @ bsl # ''pub-cache''],
      subprocess_run = (\<lambda>c. res)\<rparr>"

section \<open>Properties of the path functions\<close>

subsection \<open>Names and roots\<close>

lemma posix_component: "is_component posixpath c = (c \<noteq> [] \<and> sep \<notin> set c)"
  by (auto simp: is_component_def list_all_iff)

lemma nt_component: "is_component ntpath c = (c \<noteq> [] \<and> bsl \<notin> set c \<and> altsep \<notin> set c)"
  by (auto simp: is_component_def list_all_iff seps_def)

lemma component_no_sep: "is_component m c \<Longrightarrow> pm_sep m \<notin> set c"
  by (cases m) (auto simp: posix_component nt_component)

lemma component_last: "is_component m b \<Longrightarrow> b \<noteq> [] \<and> last b \<notin> set (pm_seps m)"
  unfolding is_component_def list_all_iff by (metis last_in_set)

lemma component_hd: "is_component m b \<Longrightarrow> b \<noteq> [] \<and> hd b \<notin> set (pm_seps m)"
  unfolding is_component_def list_all_iff by (metis hd_in_set)

lemma abs_path_snoc:
  "abs_path m r (cs @ [b]) = (if cs = [] then r @ b else abs_path m r cs @ pm_sep m # b)"
  by (cases cs) auto

lemma abs_path_root: "abs_path m (a @ r) cs = a @ abs_path m r cs"
  by (cases cs) auto

lemma abs_path_last:
  "list_all (is_component m) cs \<Longrightarrow> cs \<noteq> [] \<Longrightarrow>
   abs_path m r cs \<noteq> [] \<and> last (abs_path m r cs) \<notin> set (pm_seps m)"
proof (induction cs rule: rev_induct)
  case Nil then show ?case by simp
next
  case (snoc b cs)
  then have "b \<noteq> []" "last b \<notin> set (pm_seps m)"
    using component_last [of m b] by auto
  then show ?case by (auto simp: abs_path_snoc)
qed

lemma list_all_butlast: "list_all P xs \<Longrightarrow> list_all P (butlast xs)"
  by (induction xs) auto

subsection \<open>\<open>posixpath\<close>\<close>

lemma rfind_absent: "c \<notin> set b \<Longrightarrow> str_rfind b c = - 1"
  by (induction b) (auto simp: Let_def)

lemma rfind_last: "c \<notin> set b \<Longrightarrow> str_rfind (xs @ c # b) c = int (length xs)"
  by (induction xs) (auto simp: Let_def rfind_absent)

lemma posix_root_snoc:
  "is_root posixpath r \<Longrightarrow> \<exists>r'. r = r' @ [sep] \<and> list_all (\<lambda>x. x = sep) r'"
  by (cases r rule: rev_cases) auto

lemma all_sep_iff: "(r = replicate (length r) c) = list_all (\<lambda>x. x = c) r"
  by (induction r) auto

lemma rstrip_snoc_sep:
  "p \<noteq> [] \<Longrightarrow> last p \<notin> set cs \<Longrightarrow> s \<in> set cs \<Longrightarrow> str_rstrip (p @ [s]) cs = p"
  by (cases p rule: rev_cases) (auto simp: str_rstrip_def)

lemma take_head: "take (nat (int (length xs) + 1)) (xs @ x # b) = xs @ [x]"
proof -
  have "nat (int (length xs) + 1) = Suc (length xs)" by simp
  then show ?thesis by simp
qed

lemma dirname_split:
  assumes "sep \<notin> set b"
  shows "posixpath_dirname (xs @ sep # b) =
     (if list_all (\<lambda>x. x = sep) xs then xs @ [sep] else str_rstrip (xs @ [sep]) [sep])"
proof -
  have "(xs @ [sep] = replicate (length (xs @ [sep])) sep) = list_all (\<lambda>x. x = sep) xs"
    by (simp only: all_sep_iff) simp
  then show ?thesis
    unfolding posixpath_dirname_def Let_def rfind_last [OF assms] take_head by auto
qed

lemma posix_dirname_abs_path:
  assumes "is_root posixpath r" "list_all (is_component posixpath) cs"
  shows "posixpath_dirname (abs_path posixpath r cs) = abs_path posixpath r (butlast cs)"
proof (cases cs rule: rev_cases)
  case Nil
  from posix_root_snoc [OF assms(1)]
  obtain r' where r: "r = r' @ [sep]" "list_all (\<lambda>x. x = sep) r'"
    by blast
  have "posixpath_dirname (r' @ sep # []) = r' @ [sep]"
    using r(2) by (simp add: dirname_split)
  with Nil r show ?thesis by simp
next
  case (snoc cs' b)
  with assms have b: "sep \<notin> set b" "b \<noteq> []" and cs': "list_all (is_component posixpath) cs'"
    by (auto simp: posix_component)
  show ?thesis
  proof (cases "cs' = []")
    case True
    from posix_root_snoc [OF assms(1)]
    obtain r' where r: "r = r' @ [sep]" "list_all (\<lambda>x. x = sep) r'"
      by blast
    have "posixpath_dirname (r' @ sep # b) = r' @ [sep]"
      using r(2) b by (simp add: dirname_split)
    with True snoc r show ?thesis by simp
  next
    case False
    from abs_path_last [OF cs' False]
    have l: "abs_path posixpath r cs' \<noteq> []" "last (abs_path posixpath r cs') \<noteq> sep"
      by auto
    then have ne: "\<not> list_all (\<lambda>x. x = sep) (abs_path posixpath r cs')"
      using last_in_set [of "abs_path posixpath r cs'"] by (auto simp: list_all_iff)
    have "posixpath_dirname (abs_path posixpath r cs' @ sep # b) = abs_path posixpath r cs'"
      using b ne l by (simp add: dirname_split rstrip_snoc_sep)
    with False snoc show ?thesis by (simp add: abs_path_snoc)
  qed
qed

lemma join_step_component:
  assumes "is_root posixpath r" "list_all (is_component posixpath) cs" "is_component posixpath b"
  shows "join_step (abs_path posixpath r cs) b = abs_path posixpath r (cs @ [b])"
proof (cases "cs = []")
  case True
  from posix_root_snoc [OF assms(1)] obtain r' where "r = r' @ [sep]" by blast
  with True assms(3) show ?thesis
    by (cases b) (auto simp: join_step_def startswith_def endswith_def posix_component)
next
  case False
  from abs_path_last [OF assms(2) False]
  have "abs_path posixpath r cs \<noteq> []" "last (abs_path posixpath r cs) \<noteq> sep" by auto
  then have "\<not> endswith (abs_path posixpath r cs) sep"
    by (cases "abs_path posixpath r cs" rule: rev_cases) (auto simp: endswith_def)
  with False assms(3) \<open>abs_path posixpath r cs \<noteq> []\<close> show ?thesis
    by (cases b) (auto simp: join_step_def startswith_def posix_component abs_path_snoc)
qed

lemma posix_join_abs_path:
  assumes "is_root posixpath r"
  shows "list_all (is_component posixpath) cs \<Longrightarrow> list_all (is_component posixpath) bs \<Longrightarrow>
         posixpath_join (abs_path posixpath r cs) bs = abs_path posixpath r (cs @ bs)"
proof (induction bs arbitrary: cs)
  case Nil
  then show ?case by (simp add: posixpath_join_def)
next
  case (Cons b bs)
  then have "posixpath_join (abs_path posixpath r (cs @ [b])) bs =
             abs_path posixpath r ((cs @ [b]) @ bs)"
    by (intro Cons.IH) auto
  with Cons.prems assms show ?case
    by (simp add: posixpath_join_def join_step_component)
qed

lemma join_step_nested:
  assumes "is_component posixpath b1" "is_component posixpath b2"
  shows "join_step p (b1 @ sep # b2) = join_step (join_step p b1) b2"
proof -
  from component_last [OF assms(1)] have l: "b1 \<noteq> []" "last b1 \<noteq> sep" by auto
  from assms(1) obtain x xs where b1: "b1 = x # xs" "x \<noteq> sep"
    by (cases b1) (auto simp: posix_component)
  from assms(2) obtain y ys where b2: "b2 = y # ys" "y \<noteq> sep"
    by (cases b2) (auto simp: posix_component)
  have e: "\<not> endswith (q @ b1) sep" for q
    using l by (cases b1 rule: rev_cases) (auto simp: endswith_def)
  have s1: "\<not> startswith (b1 @ sep # b2) sep" "\<not> startswith b1 sep" "\<not> startswith b2 sep"
    using b1 b2 by (auto simp: startswith_def)
  show ?thesis
    using e [of p] e [of "p @ [sep]"] s1 l(1)
    by (auto simp: join_step_def)
qed

lemma drop_head: "drop (nat (int (length xs) + 1)) (xs @ x # b) = b"
proof -
  have "nat (int (length xs) + 1) = Suc (length xs)" by simp
  then show ?thesis by simp
qed

lemma basename_split:
  assumes "sep \<notin> set b"
  shows "posixpath_basename (xs @ sep # b) = b"
  unfolding posixpath_basename_def Let_def rfind_last [OF assms] by (rule drop_head)

lemma basename_plain: "sep \<notin> set b \<Longrightarrow> posixpath_basename b = b"
  by (simp add: posixpath_basename_def rfind_absent)

lemma basename_join_step:
  assumes "sep \<notin> set b"
  shows "posixpath_basename (join_step q b) = b"
proof -
  from assms have s: "\<not> startswith b sep"
    by (cases b) (auto simp: startswith_def)
  show ?thesis
  proof (cases "q = [] \<or> endswith q sep")
    case True
    then show ?thesis
    proof
      assume "q = []"
      with s assms show ?thesis by (simp add: join_step_def basename_plain)
    next
      assume e: "endswith q sep"
      then obtain q' where "q = q' @ [sep]"
        by (cases q rule: rev_cases) (auto simp: endswith_def)
      with s e assms show ?thesis by (simp add: join_step_def basename_split)
    qed
  next
    case False
    with s assms show ?thesis by (simp add: join_step_def basename_split)
  qed
qed

subsection \<open>Reading names back\<close>

lemma split_by_nonempty: "split_by cs s \<noteq> []"
  by (induction s) (auto split: list.splits)

lemma split_by_append: "c \<in> set cs \<Longrightarrow> split_by cs (a @ c # b) = split_by cs a @ split_by cs b"
proof (induction a)
  case Nil then show ?case by simp
next
  case (Cons x a)
  then show ?case
    using split_by_nonempty [of cs a]
    by (cases "split_by cs a") auto
qed

lemma split_by_absent: "set w \<inter> set cs = {} \<Longrightarrow> split_by cs w = [w]"
  by (induction w) auto

subsection \<open>\<open>str.find\<close>\<close>

lemma index_found:
  "str_index s c \<noteq> - 1 \<Longrightarrow>
   0 \<le> str_index s c \<and> nat (str_index s c) < length s \<and> s ! nat (str_index s c) = c"
proof (induction s)
  case Nil then show ?case by simp
next
  case (Cons x s)
  show ?case
  proof (cases "x = c")
    case True then show ?thesis by simp
  next
    case False
    with Cons.prems have n: "str_index s c \<noteq> - 1"
      by (auto simp: Let_def split: if_splits)
    from Cons.IH [OF n] have "0 \<le> str_index s c" by simp
    then have "nat (str_index s c + 1) = Suc (nat (str_index s c))"
      by arith
    with False n Cons.IH [OF n] show ?thesis by (simp add: Let_def)
  qed
qed

lemma index_append: "str_index s c \<noteq> - 1 \<Longrightarrow> str_index (s @ t) c = str_index s c"
  by (induction s) (auto simp: Let_def)

lemma index_le: "j < length s \<Longrightarrow> s ! j = c \<Longrightarrow> str_index s c \<noteq> - 1 \<and> str_index s c \<le> int j"
proof (induction s arbitrary: j)
  case Nil then show ?case by simp
next
  case (Cons x s)
  show ?case
  proof (cases "x = c")
    case True then show ?thesis by simp
  next
    case False
    with Cons.prems obtain j' where j: "j = Suc j'" by (cases j) auto
    with Cons.prems have "j' < length s" "s ! j' = c" by auto
    from Cons.IH [OF this] False j index_found [of s c] show ?thesis
      by (auto simp: Let_def)
  qed
qed

lemma find_found:
  assumes "str_find s c k \<noteq> - 1"
  shows "int k \<le> str_find s c k \<and> nat (str_find s c k) < length s
         \<and> s ! nat (str_find s c k) = c"
proof -
  let ?r = "str_index (drop k s) c"
  from assms have r: "?r \<noteq> - 1" and f: "str_find s c k = int k + ?r"
    by (auto simp: str_find_def Let_def split: if_splits)
  from index_found [OF r] have i: "0 \<le> ?r" "nat ?r < length (drop k s)" "drop k s ! nat ?r = c"
    by auto
  then have "nat (int k + ?r) = k + nat ?r" by simp
  with i f show ?thesis by (auto simp: nth_drop)
qed

lemma find_append:
  assumes "str_find s c k \<noteq> - 1"
  shows "str_find (s @ t) c k = str_find s c k"
proof -
  from assms have r: "str_index (drop k s) c \<noteq> - 1"
    by (auto simp: str_find_def Let_def split: if_splits)
  then show ?thesis
    by (simp add: str_find_def index_append)
qed

lemma find_le:
  assumes "k \<le> j" "j < length s" "s ! j = c"
  shows "str_find s c k \<noteq> - 1 \<and> str_find s c k \<le> int j"
proof -
  from assms have "j - k < length (drop k s)" "drop k s ! (j - k) = c"
    by (auto simp: nth_drop)
  from index_le [OF this] assms(1) index_found [of "drop k s" c] show ?thesis
    by (auto simp: str_find_def Let_def)
qed

subsection \<open>\<open>ntpath.splitdrive\<close>\<close>

lemma replace_append: "str_replace (a @ b) x y = str_replace a x y @ str_replace b x y"
  by (simp add: str_replace_def)

lemma replace_length: "length (str_replace a x y) = length a"
  by (simp add: str_replace_def)

lemma replace_nth: "j < length a \<Longrightarrow> str_replace a x y ! j = (if a ! j = x then y else a ! j)"
  by (simp add: str_replace_def)

lemma splitdrive_parts: "ntpath_splitdrive p = (d, q) \<Longrightarrow> d @ q = p"
  by (auto simp: ntpath_splitdrive_def Let_def split: if_splits)

lemma upper_bsl: "ascii_upper bsl = bsl"
  by (simp add: ascii_upper_def bsl_def)

lemma unc_prefix_length: "length unc_prefix = 8"
  by (simp add: unc_prefix_def)

lemma unc_bsl_pos:
  assumes "2 \<le> j" "j \<le> 6" "unc_prefix ! j = bsl"
  shows "j = 3"
proof -
  from assms(1,2) have "j = 2 \<or> j = 3 \<or> j = 4 \<or> j = 5 \<or> j = 6" by arith
  with assms(3) show ?thesis
    by (auto simp: unc_prefix_def bsl_def)
qed

lemma nt_root_parts:
  assumes "is_root ntpath r"
  shows "r = butlast r @ [bsl] \<and> butlast r \<noteq> [] \<and> ntpath_splitdrive r = (butlast r, [bsl])"
proof -
  from assms obtain d where d: "ntpath_splitdrive r = (d, [bsl])" "d \<noteq> []"
    by (auto split: prod.splits)
  from splitdrive_parts [OF d(1)] have "r = d @ [bsl]" by simp
  with d show ?thesis by simp
qed

lemma splitdrive_root:
  assumes "is_root ntpath r"
  shows "ntpath_splitdrive (r @ rest) = (butlast r, bsl # rest)"
proof -
  define d where "d = butlast r"
  from nt_root_parts [OF assms] have r: "r = d @ [bsl]" and d: "d \<noteq> []"
    and s: "ntpath_splitdrive r = (d, [bsl])"
    by (simp_all add: d_def)
  define n where "n = str_replace r altsep bsl"
  define n' where "n' = str_replace (r @ rest) altsep bsl"
  have n': "n' = n @ str_replace rest altsep bsl"
    by (simp add: n_def n'_def replace_append)
  have ln: "length n = length r" by (simp add: n_def replace_length)
  from r d have l2: "2 \<le> length r" by (cases d) auto
  then have l2': "2 \<le> length (r @ rest)" by simp
  have t2: "take 2 n' = take 2 n" using l2 ln by (simp add: n')
  have t1: "take 1 (drop 1 n') = take 1 (drop 1 n)" using l2 ln by (simp add: n')
  show ?thesis
  proof (cases "take 2 n = [bsl, bsl]")
    case False
    with s l2 have c: "take 1 (drop 1 n) = [colon]" and e: "take 2 r = d" "drop 2 r = [bsl]"
      by (auto simp: ntpath_splitdrive_def Let_def n_def split: if_splits)
    from e have "length d = 2" using r by (cases d; cases "tl d") auto
    with r have "take 2 (r @ rest) = d" "drop 2 (r @ rest) = bsl # rest" by auto
    with False c t1 t2 l2' show ?thesis
      unfolding d_def [symmetric]
      by (simp add: ntpath_splitdrive_def Let_def n'_def [symmetric])
  next
    case True
    define start where "start = (if str_upper (take 8 n) = unc_prefix then 8 else 2::nat)"
    define i where "i = str_find n bsl start"
    define i2 where "i2 = str_find n bsl (nat (i + 1))"
    from s l2 True have i: "i \<noteq> - 1" and i2: "i2 \<noteq> - 1"
      and e: "take (nat i2) r = d" "drop (nat i2) r = [bsl]"
      by (auto simp: ntpath_splitdrive_def Let_def n_def [symmetric] start_def i_def i2_def
          split: if_splits)
    from e r have k: "nat i2 = length d"
      by (metis append_eq_conv_conj append_take_drop_id length_take min.absorb2 nat_le_linear
          take_all length_append_singleton not_less_eq_eq)
    from find_found [of n bsl start] i
    have fi: "int start \<le> i" "nat i < length n" "n ! nat i = bsl"
      by (auto simp: i_def)
    from find_found [of n bsl "nat (i + 1)"] i2
    have fi2: "int (nat (i + 1)) \<le> i2" "nat i2 < length n" "n ! nat i2 = bsl"
      by (auto simp: i2_def)
    define start' where "start' = (if str_upper (take 8 n') = unc_prefix then 8 else 2::nat)"
    have st: "start' = start"
    proof (cases "8 \<le> length r")
      case True
      then have "take 8 n' = take 8 n" using ln by (simp add: n')
      then show ?thesis by (simp add: start'_def start_def)
    next
      case False
      then have "length (str_upper (take 8 n)) \<noteq> 8" using ln by (simp add: str_upper_def)
      then have s2: "start = 2" using unc_prefix_length by (auto simp: start_def)
      have "str_upper (take 8 n') \<noteq> unc_prefix"
      proof
        assume u: "str_upper (take 8 n') = unc_prefix"
        have nth: "unc_prefix ! j = ascii_upper (n ! j)" if "j < length r" for j
        proof -
          from that False have "j < 8" "j < length n'" "n' ! j = n ! j"
            using ln by (auto simp: n' nth_append)
          then have "str_upper (take 8 n') ! j = ascii_upper (n ! j)"
            by (simp add: str_upper_def)
          with u show ?thesis by simp
        qed
        from fi s2 have a: "2 \<le> nat i" by simp
        from fi2 fi have b: "nat i < nat i2" by simp
        from k r False have c: "nat i2 \<le> 6" by simp
        from fi(2) ln nth [of "nat i"] fi(3) have "unc_prefix ! nat i = bsl"
          by (simp add: upper_bsl)
        with a b c have "nat i = 3" by (intro unc_bsl_pos) auto
        moreover from fi2(2) ln nth [of "nat i2"] fi2(3) have "unc_prefix ! nat i2 = bsl"
          by (simp add: upper_bsl)
        with a b c have "nat i2 = 3" by (intro unc_bsl_pos) auto
        ultimately show False using b by simp
      qed
      with s2 show ?thesis by (simp add: start'_def)
    qed
    have i': "str_find n' bsl start' = i"
      using find_append [of n bsl start] i by (simp add: n' st i_def)
    have i2': "str_find n' bsl (nat (i + 1)) = i2"
      using find_append [of n bsl "nat (i + 1)"] i2 by (simp add: n' i2_def)
    have "take (nat i2) (r @ rest) = d" "drop (nat i2) (r @ rest) = bsl # rest"
      using k r by auto
    with True t2 l2' i i2 i' i2' show ?thesis
      unfolding d_def [symmetric]
      by (simp add: ntpath_splitdrive_def Let_def n'_def [symmetric] start'_def [symmetric])
  qed
qed

subsection \<open>\<open>ntpath.split\<close>\<close>

lemma split_index_append: "k \<le> length p \<Longrightarrow> split_index (p @ q) k = split_index p k"
  by (induction k) (auto simp: nth_append)

lemma split_index_tail:
  assumes "s \<in> set seps"
  shows "set b \<inter> set seps = {} \<Longrightarrow>
         split_index (a @ s # b) (length (a @ s # b)) = Suc (length a)"
proof (induction b rule: rev_induct)
  case Nil
  with assms show ?case by simp
next
  case (snoc x b)
  then have x: "x \<notin> set seps" and b: "set b \<inter> set seps = {}" by auto
  have "split_index ((a @ s # b) @ [x]) (Suc (length (a @ s # b))) =
        split_index ((a @ s # b) @ [x]) (length (a @ s # b))"
    using x by (simp del: append_assoc add: nth_append)
  also have "\<dots> = split_index (a @ s # b) (length (a @ s # b))"
    by (rule split_index_append) simp
  also have "\<dots> = Suc (length a)" using b by (rule snoc.IH)
  finally show ?case by simp
qed

lemma rstrip_all: "set a \<subseteq> set cs \<Longrightarrow> str_rstrip a cs = []"
  by (auto simp: str_rstrip_def dropWhile_eq_Nil_conv)

lemma nt_split_tail:
  assumes "ntpath_splitdrive p = (D, X @ s # b)" "s \<in> set seps" "set b \<inter> set seps = {}"
  shows "snd (ntpath_split p) = b"
  using assms split_index_tail [OF assms(2,3), of X]
  by (simp add: ntpath_split_def Let_def)

lemma nt_split_head:
  assumes "ntpath_splitdrive p = (D, X @ s # b)" "s \<in> set seps" "set b \<inter> set seps = {}"
  shows "fst (ntpath_split p) =
         D @ (if str_rstrip (X @ [s]) seps \<noteq> [] then str_rstrip (X @ [s]) seps else X @ [s])"
  using assms split_index_tail [OF assms(2,3), of X]
  by (simp add: ntpath_split_def Let_def)

lemma bsl_sep: "bsl \<in> set seps" "altsep \<in> set seps"
  by (simp_all add: seps_def)

lemma nt_comp_seps: "is_component ntpath b \<Longrightarrow> set b \<inter> set seps = {}"
  by (auto simp: nt_component seps_def)

lemma nt_split_abs_path:
  assumes "is_root ntpath r" "list_all (is_component ntpath) cs"
  shows "ntpath_split (abs_path ntpath r cs) =
         (abs_path ntpath r (butlast cs), if cs = [] then [] else last cs)"
proof -
  define d where "d = butlast r"
  from nt_root_parts [OF assms(1)] have r: "r = d @ [bsl]" by (simp add: d_def)
  show ?thesis
  proof (cases cs rule: rev_cases)
    case Nil
    have "ntpath_splitdrive (r @ []) = (d, [] @ bsl # [])"
      using splitdrive_root [OF assms(1), of "[]"] by (simp add: d_def)
    from nt_split_head [OF this] nt_split_tail [OF this] bsl_sep(1)
    have "ntpath_split r = (d @ [bsl], [])"
      by (simp add: rstrip_all prod_eq_iff)
    with Nil r show ?thesis by simp
  next
    case (snoc cs' b)
    with assms(2) have b: "set b \<inter> set seps = {}" and cs': "list_all (is_component ntpath) cs'"
      by (auto simp: nt_comp_seps)
    show ?thesis
    proof (cases "cs' = []")
      case True
      have "ntpath_splitdrive (r @ b) = (d, [] @ bsl # b)"
        using splitdrive_root [OF assms(1), of b] by (simp add: d_def)
      from nt_split_head [OF this bsl_sep(1) b] nt_split_tail [OF this bsl_sep(1) b] bsl_sep(1)
      have "ntpath_split (r @ b) = (d @ [bsl], b)"
        by (simp add: rstrip_all prod_eq_iff)
      with True snoc r show ?thesis by simp
    next
      case False
      define rel where "rel = abs_path ntpath [] cs'"
      from abs_path_last [OF cs' False, of "[]"]
      have l: "rel \<noteq> []" "last rel \<notin> set seps" by (auto simp: rel_def)
      have a: "abs_path ntpath r cs' = d @ bsl # rel"
        using abs_path_root [of ntpath r "[]" cs'] by (simp add: rel_def r)
      have p: "abs_path ntpath r cs = r @ rel @ bsl # b"
        using snoc False a r by (simp add: abs_path_snoc)
      have "ntpath_splitdrive (r @ rel @ bsl # b) = (d, (bsl # rel) @ bsl # b)"
        using splitdrive_root [OF assms(1), of "rel @ bsl # b"] by (simp add: d_def)
      from nt_split_head [OF this bsl_sep(1) b] nt_split_tail [OF this bsl_sep(1) b]
      have "ntpath_split (r @ rel @ bsl # b) = (d @ bsl # rel, b)"
        using rstrip_snoc_sep [of "bsl # rel" seps bsl] l bsl_sep(1)
        by (simp add: prod_eq_iff)
      with snoc p a show ?thesis by simp
    qed
  qed
qed

lemma nt_dirname_abs_path:
  assumes "is_root ntpath r" "list_all (is_component ntpath) cs"
  shows "ntpath_dirname (abs_path ntpath r cs) = abs_path ntpath r (butlast cs)"
  by (simp add: ntpath_dirname_def nt_split_abs_path [OF assms])

subsection \<open>\<open>ntpath.join\<close>\<close>

lemma nt_join_step_plain:
  assumes "ntpath_splitdrive b = ([], b)" "b \<noteq> []" "hd b \<notin> set seps"
  shows "nt_join_step (rd, rp) b =
         (rd, (if rp \<noteq> [] \<and> last rp \<notin> set seps then rp @ [bsl] else rp) @ b)"
  using assms by (simp add: nt_join_step_def Let_def)

lemma nt_join_step_abs_path:
  assumes "list_all (is_component ntpath) cs"
    and "ntpath_splitdrive b = ([], b)" "b \<noteq> []" "hd b \<notin> set seps"
  shows "nt_join_step (d, bsl # abs_path ntpath [] cs) b =
         (d, bsl # abs_path ntpath [] cs @ (if cs = [] then [] else [bsl]) @ b)"
proof (cases "cs = []")
  case True
  with bsl_sep(1) show ?thesis
    by (simp add: nt_join_step_plain [OF assms(2-4)])
next
  case False
  from abs_path_last [OF assms(1) False, of "[]"] False show ?thesis
    by (simp add: nt_join_step_plain [OF assms(2-4)])
qed

lemma nt_join_fold:
  "list_all (is_component ntpath) cs \<Longrightarrow>
   list_all (\<lambda>b. is_component ntpath b \<and> ntpath_splitdrive b = ([], b)) bs \<Longrightarrow>
   foldl nt_join_step (d, bsl # abs_path ntpath [] cs) bs =
     (d, bsl # abs_path ntpath [] (cs @ bs))"
proof (induction bs arbitrary: cs)
  case Nil
  then show ?case by simp
next
  case (Cons b bs)
  then have b: "is_component ntpath b" "ntpath_splitdrive b = ([], b)" by auto
  from component_hd [OF b(1)] have h: "b \<noteq> []" "hd b \<notin> set seps" by auto
  have "nt_join_step (d, bsl # abs_path ntpath [] cs) b = (d, bsl # abs_path ntpath [] (cs @ [b]))"
    using nt_join_step_abs_path [OF Cons.prems(1) b(2) h] by (simp add: abs_path_snoc)
  moreover have "foldl nt_join_step (d, bsl # abs_path ntpath [] (cs @ [b])) bs =
                 (d, bsl # abs_path ntpath [] ((cs @ [b]) @ bs))"
    using Cons.prems b(1) by (intro Cons.IH) auto
  ultimately show ?case by simp
qed

lemma nt_abs_path_drive:
  assumes "is_root ntpath r"
  shows "abs_path ntpath r cs = butlast r @ bsl # abs_path ntpath [] cs"
  using nt_root_parts [OF assms] abs_path_root [of ntpath "butlast r @ [bsl]" "[]" cs]
  by simp

lemma nt_splitdrive_abs_path:
  assumes "is_root ntpath r"
  shows "ntpath_splitdrive (abs_path ntpath r cs @ t) =
         (butlast r, bsl # abs_path ntpath [] cs @ t)"
proof -
  have "abs_path ntpath r cs @ t = r @ abs_path ntpath [] cs @ t"
    using abs_path_root [of ntpath r "[]" cs] by simp
  then show ?thesis by (simp add: splitdrive_root [OF assms])
qed

lemma nt_join_abs_path:
  assumes "is_root ntpath r" "list_all (is_component ntpath) cs"
    and "list_all (\<lambda>b. is_component ntpath b \<and> ntpath_splitdrive b = ([], b)) bs"
  shows "ntpath_join (abs_path ntpath r cs) bs = abs_path ntpath r (cs @ bs)"
  using nt_splitdrive_abs_path [OF assms(1), of cs "[]"] nt_join_fold [OF assms(2,3)] bsl_sep(1)
  by (simp add: ntpath_join_def nt_abs_path_drive [OF assms(1)])

subsection \<open>The fixed names of the script\<close>

lemma fixed_components:
  "is_component m ''sdks''" "is_component m ''dart-sdk''" "is_component m ''bin''"
  "is_component m ''dart''" "is_component m ''dart.exe''"
  "is_component m ''.dart_tool''" "is_component m ''sdk_pub_cache''"
  by (cases m; simp add: is_component_def sep_def seps_def bsl_def altsep_def)+

lemma fixed_no_drive:
  "ntpath_splitdrive ''sdks'' = ([], ''sdks'')"
  "ntpath_splitdrive ''dart-sdk'' = ([], ''dart-sdk'')"
  "ntpath_splitdrive ''bin'' = ([], ''bin'')"
  "ntpath_splitdrive ''dart.exe'' = ([], ''dart.exe'')"
  "ntpath_splitdrive ''dart'' = ([], ''dart'')"
  "ntpath_splitdrive ''.dart_tool/sdk_pub_cache'' = ([], ''.dart_tool/sdk_pub_cache'')"
  by (simp_all add: ntpath_splitdrive_def str_replace_def altsep_def bsl_def colon_def Let_def)

subsection \<open>The file name of a joined path, for every first argument\<close>

lemma splitdrive_rest_sep:
  assumes "ntpath_splitdrive p = (d, q)" "d \<noteq> []" "q \<noteq> []" "last d \<noteq> colon"
  shows "hd q \<in> set seps"
proof -
  define n where "n = str_replace p altsep bsl"
  have nth: "n ! j = bsl \<Longrightarrow> p ! j \<in> set seps" if "j < length p" for j
    using that by (auto simp: n_def replace_nth seps_def split: if_splits)
  have col: "n ! j = colon \<Longrightarrow> p ! j = colon" if "j < length p" for j
    using that by (auto simp: n_def replace_nth bsl_def colon_def split: if_splits)
  from assms(1,2) have l2: "2 \<le> length p"
    by (auto simp: ntpath_splitdrive_def split: if_splits)
  show ?thesis
  proof (cases "take 2 n = [bsl, bsl]")
    case True
    define start where "start = (if str_upper (take 8 n) = unc_prefix then 8 else 2::nat)"
    define i where "i = str_find n bsl start"
    define i2 where "i2 = str_find n bsl (nat (i + 1))"
    from assms(1,3) l2 True have i2: "i2 \<noteq> - 1" and q: "q = drop (nat i2) p"
      by (auto simp: ntpath_splitdrive_def Let_def n_def [symmetric] start_def i_def i2_def
          split: if_splits)
    from find_found [of n bsl "nat (i + 1)"] i2
    have f: "nat i2 < length n" "n ! nat i2 = bsl" by (auto simp: i2_def)
    then have "nat i2 < length p" by (simp add: n_def replace_length)
    with f nth [of "nat i2"] q show ?thesis by (simp add: hd_drop_conv_nth)
  next
    case False
    with assms(1,2) l2 have c: "take 1 (drop 1 n) = [colon]" and d: "d = take 2 p"
      by (auto simp: ntpath_splitdrive_def Let_def n_def [symmetric] split: if_splits)
    from l2 have "1 < length n" by (simp add: n_def replace_length)
    with c have "n ! 1 = colon"
      by (cases n; cases "tl n") auto
    with col [of 1] l2 have "p ! 1 = colon" by simp
    moreover from d l2 have "last d = p ! 1"
      by (cases p; cases "tl p") auto
    ultimately show ?thesis using assms(4) by simp
  qed
qed

lemma nt_join_two_suffix:
  assumes "ntpath_splitdrive b1 = ([], b1)" "b1 \<noteq> []" "hd b1 \<notin> set seps" "last b1 \<notin> set seps"
    and "ntpath_splitdrive b2 = ([], b2)" "b2 \<noteq> []" "hd b2 \<notin> set seps"
  shows "\<exists>W. ntpath_join t [b1, b2] = W @ b1 @ bsl # b2"
proof -
  obtain rd rp where s: "ntpath_splitdrive t = (rd, rp)" by (cases "ntpath_splitdrive t")
  define rp1 where "rp1 = (if rp \<noteq> [] \<and> last rp \<notin> set seps then rp @ [bsl] else rp)"
  have f: "nt_join_step (nt_join_step (rd, rp) b1) b2 = (rd, rp1 @ b1 @ bsl # b2)"
    using assms(2,4)
    by (simp add: nt_join_step_plain [OF assms(1-3)] nt_join_step_plain [OF assms(5-7)] rp1_def)
  have "ntpath_join t [b1, b2] = rd @ rp1 @ b1 @ bsl # b2
        \<or> ntpath_join t [b1, b2] = rd @ [bsl] @ rp1 @ b1 @ bsl # b2"
    by (simp add: ntpath_join_def s f)
  then show ?thesis
  proof
    assume "ntpath_join t [b1, b2] = rd @ rp1 @ b1 @ bsl # b2"
    then have "ntpath_join t [b1, b2] = (rd @ rp1) @ b1 @ bsl # b2" by simp
    then show ?thesis by blast
  next
    assume "ntpath_join t [b1, b2] = rd @ [bsl] @ rp1 @ b1 @ bsl # b2"
    then have "ntpath_join t [b1, b2] = (rd @ [bsl] @ rp1) @ b1 @ bsl # b2" by simp
    then show ?thesis by blast
  qed
qed

lemma nt_join_two_append:
  assumes "q \<noteq> []" "last q \<notin> set seps" "last q \<noteq> colon"
    and "ntpath_splitdrive b1 = ([], b1)" "b1 \<noteq> []" "hd b1 \<notin> set seps" "last b1 \<notin> set seps"
    and "ntpath_splitdrive b2 = ([], b2)" "b2 \<noteq> []" "hd b2 \<notin> set seps"
  shows "ntpath_join q [b1, b2] = q @ bsl # b1 @ bsl # b2"
proof -
  obtain rd rp where s: "ntpath_splitdrive q = (rd, rp)" by (cases "ntpath_splitdrive q")
  from splitdrive_parts [OF s] have q: "q = rd @ rp" by simp
  show ?thesis
  proof (cases "rp = []")
    case True
    with q assms(1,3) have rd: "rd \<noteq> []" "last rd \<noteq> colon" "rd = q" by auto
    have "nt_join_step (nt_join_step (rd, rp) b1) b2 = (rd, b1 @ bsl # b2)"
      using assms(5,7) True
      by (simp add: nt_join_step_plain [OF assms(4-6)] nt_join_step_plain [OF assms(8-10)])
    with rd assms(5,6) show ?thesis
      by (simp add: ntpath_join_def s)
  next
    case False
    with q assms(2) have l: "last rp \<notin> set seps" by simp
    have f: "nt_join_step (nt_join_step (rd, rp) b1) b2 = (rd, rp @ bsl # b1 @ bsl # b2)"
      using assms(5,7) False l
      by (simp add: nt_join_step_plain [OF assms(4-6)] nt_join_step_plain [OF assms(8-10)])
    have "\<not> (hd rp \<notin> set seps \<and> rd \<noteq> [] \<and> last rd \<noteq> colon)"
      using splitdrive_rest_sep [OF s _ False] by blast
    with False have "ntpath_join q [b1, b2] = rd @ rp @ bsl # b1 @ bsl # b2"
      by (auto simp: ntpath_join_def s f)
    then show ?thesis by (simp add: q)
  qed
qed

lemma splitdrive_drive_bound:
  assumes "2 \<le> j1" "j1 < j2" "j2 < length p"
    and "str_replace p altsep bsl ! j1 = bsl" "str_replace p altsep bsl ! j2 = bsl"
    and "str_upper (take 8 (str_replace p altsep bsl)) = unc_prefix \<Longrightarrow> 8 \<le> j1"
  shows "length (fst (ntpath_splitdrive p)) \<le> j2"
proof -
  define n where "n = str_replace p altsep bsl"
  have ln: "length n = length p" by (simp add: n_def replace_length)
  show ?thesis
  proof (cases "take 2 n = [bsl, bsl]")
    case False
    with assms(1,2) show ?thesis
      by (auto simp: ntpath_splitdrive_def Let_def n_def [symmetric])
  next
    case True
    define start where "start = (if str_upper (take 8 n) = unc_prefix then 8 else 2::nat)"
    define i where "i = str_find n bsl start"
    define i2 where "i2 = str_find n bsl (nat (i + 1))"
    from assms(1,6) have "start \<le> j1" by (auto simp: start_def n_def)
    from find_le [OF this, of n bsl] assms(2,3,4) ln
    have i: "i \<noteq> - 1" "i \<le> int j1" by (auto simp: i_def n_def)
    from find_found [of n bsl start] i(1) have "0 \<le> i" by (auto simp: i_def)
    with i(2) assms(2) have "nat (i + 1) \<le> j2" by simp
    from find_le [OF this, of n bsl] assms(3,5) ln
    have i2: "i2 \<noteq> - 1" "i2 \<le> int j2" by (auto simp: i2_def n_def)
    then have "nat i2 \<le> j2" by simp
    with True i i2 assms(3) show ?thesis
      by (auto simp: ntpath_splitdrive_def Let_def n_def [symmetric] start_def [symmetric]
          i_def [symmetric] i2_def [symmetric])
  qed
qed

lemma nt_basename_tool:
  assumes "set name \<inter> set seps = {}"
  shows "ntpath_basename (W @ ''sdks'' @ bsl # ''dart-sdk'' @ bsl # ''bin'' @ bsl # name) = name"
proof -
  define X where "X = W @ ''sdks'' @ bsl # ''dart-sdk'' @ bsl # ''bin''"
  define p where "p = X @ bsl # name"
  define n where "n = str_replace p altsep bsl"
  have p: "p = W @ ''sdks'' @ bsl # ''dart-sdk'' @ bsl # ''bin'' @ bsl # name"
    by (simp add: p_def X_def)
  have n: "n = str_replace W altsep bsl @ ''sdks'' @ bsl # ''dart-sdk'' @ bsl # ''bin'' @ bsl #
             str_replace name altsep bsl"
    by (simp add: n_def p str_replace_def altsep_def bsl_def)
  define j1 where "j1 = length W + 4"
  define j2 where "j2 = length W + 13"
  have lw: "length (str_replace W altsep bsl) = length W" by (rule replace_length)
  have a: "n ! j1 = bsl" "n ! j2 = bsl" "n ! length W = CHR ''s''"
    by (simp_all add: n j1_def j2_def nth_append lw)
  have b: "2 \<le> j1" "j1 < j2" "j2 < length p" "j2 \<le> length X"
    by (simp_all add: j1_def j2_def p X_def)
  have c: "8 \<le> j1" if u: "str_upper (take 8 n) = unc_prefix"
  proof (rule ccontr)
    assume "\<not> 8 \<le> j1"
    then have w: "length W < 8" by (simp add: j1_def)
    moreover have "length W < length n" by (simp add: n lw)
    ultimately have "str_upper (take 8 n) ! length W = ascii_upper (n ! length W)"
      by (simp add: str_upper_def)
    with u a(3) have "unc_prefix ! length W = CHR ''S''"
      by (simp add: ascii_upper_def)
    moreover from w have "unc_prefix ! length W \<in> set unc_prefix"
      by (intro nth_mem) (simp add: unc_prefix_length)
    ultimately show False by (auto simp: unc_prefix_def bsl_def)
  qed
  obtain D Q where s: "ntpath_splitdrive p = (D, Q)" by (cases "ntpath_splitdrive p")
  from splitdrive_drive_bound [OF b(1-3), unfolded n_def [symmetric], OF a(1,2) c] s b(4)
  have d: "length D \<le> length X" by simp
  from splitdrive_parts [OF s] have "D @ Q = X @ bsl # name" by (simp add: p_def)
  with d have "Q = drop (length D) X @ bsl # name"
    by (metis append_eq_conv_conj drop_append diff_is_0_eq drop0)
  with s have "ntpath_splitdrive p = (D, drop (length D) X @ bsl # name)" by simp
  from nt_split_tail [OF this bsl_sep(1) assms] show ?thesis
    by (simp add: ntpath_basename_def p)
qed

lemma nt_basename_executable:
  "ntpath_basename (ntpath_join (ntpath_join t [''sdks'', ''dart-sdk'']) [''bin'', ''dart.exe''])
     = ''dart.exe''"
proof -
  have s: "''sdks'' \<noteq> []" "hd ''sdks'' \<notin> set seps" "last ''sdks'' \<notin> set seps"
    "''dart-sdk'' \<noteq> []" "hd ''dart-sdk'' \<notin> set seps"
    "''bin'' \<noteq> []" "hd ''bin'' \<notin> set seps" "last ''bin'' \<notin> set seps"
    "''dart.exe'' \<noteq> []" "hd ''dart.exe'' \<notin> set seps"
    by (simp_all add: seps_def bsl_def altsep_def)
  from nt_join_two_suffix [OF fixed_no_drive(1) s(1-3) fixed_no_drive(2) s(4,5), of t]
  obtain W where w: "ntpath_join t [''sdks'', ''dart-sdk''] = W @ ''sdks'' @ bsl # ''dart-sdk''"
    by blast
  have q: "W @ ''sdks'' @ bsl # ''dart-sdk'' \<noteq> []"
    "last (W @ ''sdks'' @ bsl # ''dart-sdk'') \<notin> set seps"
    "last (W @ ''sdks'' @ bsl # ''dart-sdk'') \<noteq> colon"
    by (simp_all add: seps_def bsl_def altsep_def colon_def)
  have "ntpath_join (W @ ''sdks'' @ bsl # ''dart-sdk'') [''bin'', ''dart.exe''] =
        (W @ ''sdks'' @ bsl # ''dart-sdk'') @ bsl # ''bin'' @ bsl # ''dart.exe''"
    by (rule nt_join_two_append [OF q fixed_no_drive(3) s(6-8) fixed_no_drive(4) s(9,10)])
  moreover have "set ''dart.exe'' \<inter> set seps = {}"
    by (simp add: seps_def bsl_def altsep_def)
  ultimately show ?thesis
    using nt_basename_tool [of "''dart.exe''" W] by (simp add: w)
qed

subsection \<open>Both path modules\<close>

lemma dirname_abs_path:
  assumes "is_root m r" "list_all (is_component m) cs"
  shows "os_path_dirname m (abs_path m r cs) = abs_path m r (butlast cs)"
  using assms by (cases m) (simp_all add: posix_dirname_abs_path nt_dirname_abs_path)

lemma join_abs_path:
  assumes "is_root m r" "list_all (is_component m) cs"
    and "list_all (\<lambda>b. is_component m b \<and> ntpath_splitdrive b = ([], b)) bs"
  shows "os_path_join m (abs_path m r cs) bs = abs_path m r (cs @ bs)"
proof (cases m)
  case posixpath
  from assms(3) have "list_all (is_component m) bs"
    by (simp add: list_all_iff)
  with assms(1,2) posixpath show ?thesis
    by (simp add: posix_join_abs_path)
next
  case ntpath
  with assms show ?thesis by (simp add: nt_join_abs_path)
qed

lemma pub_cache_path:
  assumes "is_root m r" "list_all (is_component m) ds"
  shows "os_path_join m (abs_path m r ds) [''.dart_tool/sdk_pub_cache''] =
         abs_path m r (ds @ [''.dart_tool'']) @ ''/sdk_pub_cache''"
proof (cases m)
  case posixpath
  have "join_step p ''.dart_tool/sdk_pub_cache'' =
        join_step (join_step p ''.dart_tool'') ''sdk_pub_cache''" for p
    using join_step_nested [of "''.dart_tool''" "''sdk_pub_cache''" p]
    by (simp add: fixed_components sep_def)
  then have "posixpath_join (abs_path posixpath r ds) [''.dart_tool/sdk_pub_cache''] =
             posixpath_join (abs_path posixpath r ds) [''.dart_tool'', ''sdk_pub_cache'']"
    by (simp add: posixpath_join_def)
  also have "\<dots> = abs_path posixpath r (ds @ [''.dart_tool'', ''sdk_pub_cache''])"
    using assms posixpath by (intro posix_join_abs_path) (simp_all add: fixed_components)
  also have "\<dots> = abs_path posixpath r (ds @ [''.dart_tool'']) @ ''/sdk_pub_cache''"
    using abs_path_snoc [of posixpath r "ds @ [''.dart_tool'']" "''sdk_pub_cache''"]
    by (simp add: sep_def)
  finally show ?thesis using posixpath by simp
next
  case ntpath
  with assms have r: "is_root ntpath r" and ds: "list_all (is_component ntpath) ds" by simp_all
  have h: "''.dart_tool/sdk_pub_cache'' \<noteq> []" "hd ''.dart_tool/sdk_pub_cache'' \<notin> set seps"
    by (simp_all add: seps_def bsl_def altsep_def)
  have "ntpath_join (abs_path ntpath r ds) [''.dart_tool/sdk_pub_cache''] =
        butlast r @ bsl # abs_path ntpath [] ds @ (if ds = [] then [] else [bsl])
          @ ''.dart_tool/sdk_pub_cache''"
    using nt_splitdrive_abs_path [OF r, of ds "[]"]
      nt_join_step_abs_path [OF ds fixed_no_drive(6) h, of "butlast r"] bsl_sep(1)
    by (simp add: ntpath_join_def)
  also have "\<dots> = abs_path ntpath r (ds @ [''.dart_tool'']) @ ''/sdk_pub_cache''"
    using nt_abs_path_drive [OF r, of ds] nt_root_parts [OF r]
    by (cases "ds = []") (simp_all add: abs_path_snoc)
  finally show ?thesis using ntpath by simp
qed

subsection \<open>Reading the names of a path back\<close>

lemma pm_sep_in: "pm_sep m \<in> set (pm_seps m)"
  by (cases m) (simp_all add: seps_def)

lemma slash_in: "CHR ''/'' \<in> set (pm_seps m)"
  by (cases m) (simp_all add: seps_def sep_def altsep_def)

lemma component_split: "is_component m w \<Longrightarrow> split_by (pm_seps m) w = [w]"
  by (rule split_by_absent) (auto simp: is_component_def list_all_iff)

lemma names_relative:
  "list_all (is_component m) cs \<Longrightarrow>
   filter (\<lambda>w. w \<noteq> []) (split_by (pm_seps m) (abs_path m [] cs)) = cs"
proof (induction cs rule: rev_induct)
  case Nil
  then show ?case by simp
next
  case (snoc b cs)
  then have b: "is_component m b" and cs: "list_all (is_component m) cs" by simp_all
  from b have ne: "b \<noteq> []" by (simp add: is_component_def)
  show ?case
  proof (cases "cs = []")
    case True
    with b ne show ?thesis by (simp add: component_split)
  next
    case False
    with snoc.IH [OF cs] b ne show ?thesis
      by (simp add: abs_path_snoc split_by_append [OF pm_sep_in] component_split)
  qed
qed

lemma names_skip: "set a \<subseteq> set cs \<Longrightarrow>
   filter (\<lambda>w. w \<noteq> []) (split_by cs (a @ x)) = filter (\<lambda>w. w \<noteq> []) (split_by cs x)"
  by (induction a) auto

lemma names_suffix:
  assumes "list_all (is_component m) cs" "is_component m w"
  shows "filter (\<lambda>w. w \<noteq> []) (split_by (pm_seps m) (abs_path m [] cs @ CHR ''/'' # w)) = cs @ [w]"
  using names_relative [OF assms(1)] assms(2)
  by (simp add: split_by_append [OF slash_in] component_split is_component_def)

lemma posix_root_seps: "is_root posixpath r \<Longrightarrow> set r \<subseteq> set [sep]"
  by (auto simp: list_all_iff)

lemma components_abs_path:
  assumes "is_root m r" "list_all (is_component m) cs"
  shows "path_components m (abs_path m r cs) = cs"
proof (cases m)
  case posixpath
  with assms have "is_root posixpath r" by simp
  then have "set r \<subseteq> set [sep]" by (rule posix_root_seps)
  from names_skip [OF this, of "abs_path posixpath [] cs"] names_relative [of posixpath cs]
    assms(2) posixpath abs_path_root [of posixpath r "[]" cs]
  show ?thesis by simp
next
  case ntpath
  with assms have r: "is_root ntpath r" by simp
  from nt_splitdrive_abs_path [OF r, of cs "[]"]
    names_skip [of "[bsl]" seps "abs_path ntpath [] cs"] names_relative [of ntpath cs]
    assms(2) ntpath bsl_sep(1)
  show ?thesis by simp
qed

lemma components_cache_path:
  assumes "is_root m r" "list_all (is_component m) cs" "is_component m w"
  shows "path_components m (abs_path m r cs @ CHR ''/'' # w) = cs @ [w]"
proof (cases m)
  case posixpath
  with assms have "is_root posixpath r" by simp
  then have "set r \<subseteq> set [sep]" by (rule posix_root_seps)
  from names_skip [OF this, of "abs_path posixpath [] cs @ CHR ''/'' # w"]
    names_suffix [of posixpath cs w] assms(2,3) posixpath abs_path_root [of posixpath r "[]" cs]
  show ?thesis by simp
next
  case ntpath
  with assms have r: "is_root ntpath r" by simp
  from nt_splitdrive_abs_path [OF r, of cs "CHR ''/'' # w"]
    names_skip [of "[bsl]" seps "abs_path ntpath [] cs @ CHR ''/'' # w"]
    names_suffix [of ntpath cs w] assms(2,3) ntpath bsl_sep(1)
  show ?thesis by simp
qed

lemma drive_abs_path:
  assumes "is_root m r"
  shows "path_drive m (abs_path m r cs @ t) = path_drive m r"
proof (cases m)
  case posixpath
  then show ?thesis by simp
next
  case ntpath
  with assms have r: "is_root ntpath r" by simp
  from nt_splitdrive_abs_path [OF r, of cs t] nt_root_parts [OF r] ntpath
  show ?thesis by simp
qed

lemma inside_cache_path:
  assumes "is_root m r" "list_all (is_component m) ds"
  shows "inside m (abs_path m r (ds @ [''.dart_tool'']) @ ''/sdk_pub_cache'') (abs_path m r ds)"
proof -
  have c: "list_all (is_component m) (ds @ [''.dart_tool''])"
    using assms(2) by (simp add: fixed_components)
  have "path_components m (abs_path m r (ds @ [''.dart_tool'']) @ ''/sdk_pub_cache'') =
        ds @ [''.dart_tool'', ''sdk_pub_cache'']"
    using components_cache_path [OF assms(1) c fixed_components(7)] by simp
  moreover have "path_components m (abs_path m r ds) = ds"
    by (rule components_abs_path [OF assms])
  moreover have "path_drive m (abs_path m r (ds @ [''.dart_tool'']) @ ''/sdk_pub_cache'') =
                 path_drive m (abs_path m r ds)"
    using drive_abs_path [OF assms(1), of "ds @ [''.dart_tool'']" "''/sdk_pub_cache''"]
      drive_abs_path [OF assms(1), of ds "[]"] by simp
  ultimately show ?thesis by (simp add: inside_def Let_def)
qed

section \<open>Properties of the script\<close>

lemma located_tools_dir:
  assumes "located_at h r cs"
  shows "os_path_dirname (os_path h) (os_path_realpath h (script_file h)) =
         abs_path (os_path h) r (butlast cs)"
  using assms by (simp add: located_at_def dirname_abs_path)

lemma located_sdk_dir:
  assumes "located_at h r cs"
  shows "os_path_dirname (os_path h)
           (os_path_dirname (os_path h) (os_path_realpath h (script_file h))) =
         abs_path (os_path h) r (butlast (butlast cs))"
  using assms by (simp add: located_at_def dirname_abs_path list_all_butlast)

lemma located_sdk_path:
  assumes "located_at h r cs"
  shows "checked_in_sdk_path h = abs_path (os_path h) r (butlast cs @ [''sdks'', ''dart-sdk''])"
proof -
  from assms have "is_root (os_path h) r" "list_all (is_component (os_path h)) (butlast cs)"
    by (simp_all add: located_at_def list_all_butlast)
  then have "os_path_join (os_path h) (abs_path (os_path h) r (butlast cs)) [''sdks'', ''dart-sdk''] =
             abs_path (os_path h) r (butlast cs @ [''sdks'', ''dart-sdk''])"
    by (rule join_abs_path) (simp add: fixed_components fixed_no_drive)
  then show ?thesis
    by (simp add: checked_in_sdk_path_def located_tools_dir [OF assms])
qed

lemma located_executable:
  assumes "located_at h r cs"
  shows "checked_in_sdk_executable h =
         abs_path (os_path h) r (butlast cs @ [''sdks'', ''dart-sdk'', ''bin'',
                                   if is_windows h then ''dart.exe'' else ''dart''])"
proof -
  let ?name = "if is_windows h then ''dart.exe'' else ''dart''"
  from assms have r: "is_root (os_path h) r"
    and cs: "list_all (is_component (os_path h)) (butlast cs @ [''sdks'', ''dart-sdk''])"
    by (simp_all add: located_at_def list_all_butlast fixed_components)
  have "list_all (\<lambda>b. is_component (os_path h) b \<and> ntpath_splitdrive b = ([], b)) [''bin'', ?name]"
    by (simp add: fixed_components fixed_no_drive)
  with r cs have "os_path_join (os_path h)
               (abs_path (os_path h) r (butlast cs @ [''sdks'', ''dart-sdk''])) [''bin'', ?name] =
             abs_path (os_path h) r ((butlast cs @ [''sdks'', ''dart-sdk'']) @ [''bin'', ?name])"
    by (rule join_abs_path)
  then show ?thesis
    by (simp add: checked_in_sdk_executable_def located_sdk_path [OF assms])
qed

lemma Main_calls:
  "fst (Main h) =
     [\<lparr>args = [checked_in_sdk_executable h, ''pub'', ''get'', ''--offline''],
       cwd = os_path_dirname (os_path h)
               (os_path_dirname (os_path h) (os_path_realpath h (script_file h))),
       env = [''PUB_HOSTED_URL'' \<mapsto> ''http://fake/pub'',
              ''PUB_CACHE'' \<mapsto>
                os_path_join (os_path h)
                  (os_path_dirname (os_path h)
                    (os_path_dirname (os_path h) (os_path_realpath h (script_file h))))
                  [''.dart_tool/sdk_pub_cache'']]\<rparr>]"
  by (simp add: Main_def generate_package_config_def Let_def split: run_result.splits)

lemma Main_end:
  assumes "fst (Main h) = [c]"
  shows "snd (Main h) =
     (case subprocess_run h c of
        CompletedProcess returncode \<Rightarrow> SystemExit returncode
      | Raised e \<Rightarrow> UncaughtException e
      | NeverCompletes \<Rightarrow> NeverExits)"
  using assms
  by (simp add: Main_def generate_package_config_def Let_def split: run_result.splits)

lemma example_posix: "os_path (example_host ''Linux'' f res) = posixpath"
  by (simp add: os_path_def example_host_def)

lemma example_located:
  "located_at (example_host ''Linux'' ''/usr/local/bin/gen'' res) ''/''
     [''sdk'', ''tools'', ''generate_package_config.py'']"
  "located_at (example_host ''Linux'' ''/home/dev/gen.py'' res) ''/''
     [''sdk'', ''tools'', ''generate_package_config.py'']"
  "located_at (example_host ''Linux'' ''/sdk/tools/generate_package_config.py'' res) ''/''
     [''sdk'', ''tools'', ''generate_package_config.py'']"
  by (simp_all add: located_at_def example_posix posix_component sep_def)
     (simp_all add: example_host_def example_realpath_def)

lemma windows_nt: "os_path (windows_host res) = ntpath"
  by (simp add: os_path_def windows_host_def)

lemma windows_root: "is_root ntpath (''C:'' @ [bsl])"
  by (simp add: ntpath_splitdrive_def str_replace_def altsep_def bsl_def colon_def Let_def)

lemma windows_located:
  "located_at (windows_host res) (''C:'' @ [bsl])
     [''sdk'', ''tools'', ''generate_package_config.py'']"
  using windows_root
  by (simp add: located_at_def windows_nt nt_component)
     (simp add: windows_host_def windows_realpath_def bsl_def altsep_def)

lemma paths_ignore_environment:
  "checked_in_sdk_executable (h\<lparr>os_environ := e\<rparr>) = checked_in_sdk_executable h"
  "os_path (h\<lparr>os_environ := e\<rparr>) = os_path h"
  by (simp_all add: checked_in_sdk_executable_def checked_in_sdk_path_def is_windows_def
      os_path_def)

section \<open>The claims\<close>

text \<open>
  C1. The claim that the launcher's exit status equals every return code of the child
  fails: on a POSIX host a child that was killed by signal 9 has the return code \<open>-9\<close>,
  \<open>Main\<close> gives \<open>-9\<close> to \<open>sys.exit\<close>, and the status of the launcher is 247.
\<close>

theorem C1_exit_code_counterexample:
  "subprocess_run (example_host ''Linux'' ''/usr/local/bin/gen'' (CompletedProcess (- 9)))
     (hd (fst (Main (example_host ''Linux'' ''/usr/local/bin/gen'' (CompletedProcess (- 9))))))
     = CompletedProcess (- 9)
   \<and> snd (Main (example_host ''Linux'' ''/usr/local/bin/gen'' (CompletedProcess (- 9))))
     = SystemExit (- 9)
   \<and> exit_status (example_host ''Linux'' ''/usr/local/bin/gen'' (CompletedProcess (- 9)))
       (snd (Main (example_host ''Linux'' ''/usr/local/bin/gen'' (CompletedProcess (- 9)))))
     = Some 247"
proof -
  let ?h = "example_host ''Linux'' ''/usr/local/bin/gen'' (CompletedProcess (- 9))"
  have r: "subprocess_run ?h c = CompletedProcess (- 9)" for c
    by (simp add: example_host_def)
  have "snd (Main ?h) = SystemExit (- 9)"
    using Main_end [OF Main_calls, of ?h] by (simp add: r)
  moreover have "sys_exit_status ?h (- 9) = 247"
    by (simp add: sys_exit_status_def long_bits_def status_bits_def example_host_def)
  ultimately show ?thesis using r by simp
qed

text \<open>
  C1, amended. \<open>Main\<close> gives the return code of the completed child unchanged to
  \<open>sys.exit\<close>, and the launcher's exit status is what the platform keeps of it. For
  every return code from 0 to 255 (on Windows from 0 to \<open>2^31 - 1\<close>) the status equals
  the code: zero yields zero, and a non-zero code in that range is propagated verbatim.
\<close>

theorem C1_exit_code_propagated:
  assumes "fst (Main h) = [c]" and "subprocess_run h c = CompletedProcess code"
  shows "snd (Main h) = SystemExit code
         \<and> exit_status h (snd (Main h)) = Some (sys_exit_status h code)
         \<and> (0 \<le> code \<and> code < (if platform_system h = ''Windows'' then 2 ^ 31 else 256)
              \<longrightarrow> exit_status h (snd (Main h)) = Some code)"
proof -
  have e: "snd (Main h) = SystemExit code"
    using Main_end [OF assms(1)] assms(2) by simp
  have "sys_exit_status h code = code"
    if "0 \<le> code" "code < (if platform_system h = ''Windows'' then 2 ^ 31 else 256)"
    using that by (auto simp: sys_exit_status_def long_bits_def status_bits_def split: if_splits)
  with e show ?thesis by simp
qed

theorem C1_exit_code_propagated_witness:
  "exit_status (example_host ''Linux'' ''/usr/local/bin/gen'' (CompletedProcess 7))
     (snd (Main (example_host ''Linux'' ''/usr/local/bin/gen'' (CompletedProcess 7)))) = Some 7
   \<and> exit_status (example_host ''Linux'' ''/usr/local/bin/gen'' (CompletedProcess 0))
     (snd (Main (example_host ''Linux'' ''/usr/local/bin/gen'' (CompletedProcess 0)))) = Some 0
   \<and> exit_status (windows_host (CompletedProcess 65536))
     (snd (Main (windows_host (CompletedProcess 65536)))) = Some 65536"
proof -
  let ?h = "\<lambda>n. example_host ''Linux'' ''/usr/local/bin/gen'' (CompletedProcess n)"
  have r: "subprocess_run (?h n) c = CompletedProcess n" for n c
    by (simp add: example_host_def)
  have p: "platform_system (?h n) = ''Linux''" for n
    by (simp add: example_host_def)
  have w: "subprocess_run (windows_host (CompletedProcess n)) c = CompletedProcess n"
    "platform_system (windows_host (CompletedProcess n)) = ''Windows''" for n c
    by (simp_all add: windows_host_def)
  from C1_exit_code_propagated [OF Main_calls r, of 7]
  have a: "exit_status (?h 7) (snd (Main (?h 7))) = Some 7"
    unfolding p by (elim conjE) simp
  from C1_exit_code_propagated [OF Main_calls r, of 0]
  have b: "exit_status (?h 0) (snd (Main (?h 0))) = Some 0"
    unfolding p by (elim conjE) simp
  from C1_exit_code_propagated [OF Main_calls w(1), of 65536]
  have c: "exit_status (windows_host (CompletedProcess 65536))
             (snd (Main (windows_host (CompletedProcess 65536)))) = Some 65536"
    unfolding w(2) by (elim conjE) simp
  from a b c show ?thesis by (intro conjI)
qed

text \<open>
  C2. Whatever the parent's environment is, the environment given to the child has
  exactly the two keys \<open>PUB_HOSTED_URL\<close> and \<open>PUB_CACHE\<close>, and the whole call is the
  same for every parent environment: the environment is replaced, not merged, and
  nothing of the parent's variables reaches the child.
\<close>

theorem C2_environment_replaced:
  "map (\<lambda>c. dom (env c)) (fst (Main h)) = [{''PUB_HOSTED_URL'', ''PUB_CACHE''}]
   \<and> fst (Main (h\<lparr>os_environ := e\<rparr>)) = fst (Main h)"
proof
  show "map (\<lambda>c. dom (env c)) (fst (Main h)) = [{''PUB_HOSTED_URL'', ''PUB_CACHE''}]"
    by (auto simp: Main_calls)
  show "fst (Main (h\<lparr>os_environ := e\<rparr>)) = fst (Main h)"
    by (simp add: Main_calls paths_ignore_environment)
qed

theorem C2_environment_replaced_witness:
  "dom (env (hd (fst (Main (example_host ''Linux'' ''/usr/local/bin/gen'' (CompletedProcess 0)))))) =
     {''PUB_HOSTED_URL'', ''PUB_CACHE''}
   \<and> env (hd (fst (Main (example_host ''Linux'' ''/usr/local/bin/gen'' (CompletedProcess 0)))))
       ''PATH'' = None
   \<and> os_environ (example_host ''Linux'' ''/usr/local/bin/gen'' (CompletedProcess 0)) ''PATH'' =
       Some ''/usr/bin''"
proof -
  let ?h = "example_host ''Linux'' ''/usr/local/bin/gen'' (CompletedProcess 0)"
  from C2_environment_replaced [of ?h]
  have d: "dom (env (hd (fst (Main ?h)))) = {''PUB_HOSTED_URL'', ''PUB_CACHE''}"
    by (simp add: Main_calls)
  then have "''PATH'' \<notin> dom (env (hd (fst (Main ?h))))"
    by simp
  then have "env (hd (fst (Main ?h))) ''PATH'' = None"
    by (simp only: domIff not_not)
  moreover have "os_environ ?h ''PATH'' = Some ''/usr/bin''"
    by (simp add: example_host_def)
  ultimately show ?thesis using d by simp
qed

text \<open>
  C3. For every platform identifier, the file name of the executable is \<open>dart.exe\<close>
  when \<open>platform.system()\<close> is \<open>Windows\<close> and \<open>dart\<close> for every other identifier.
\<close>

theorem C3_executable_suffix:
  "os_path_basename (os_path h) (checked_in_sdk_executable h) =
     (if platform_system h = ''Windows'' then ''dart.exe'' else ''dart'')"
proof (cases "platform_system h = ''Windows''")
  case True
  then have "os_path h = ntpath" "is_windows h"
    by (simp_all add: os_path_def is_windows_def)
  with True show ?thesis
    by (simp add: checked_in_sdk_executable_def checked_in_sdk_path_def nt_basename_executable)
next
  case False
  then have m: "os_path h = posixpath" "\<not> is_windows h"
    by (simp_all add: os_path_def is_windows_def)
  have "sep \<notin> set ''dart''" by (simp add: sep_def)
  with False m show ?thesis
    by (simp add: checked_in_sdk_executable_def posixpath_join_def basename_join_step)
qed

theorem C3_executable_suffix_witness:
  "os_path_basename ntpath (checked_in_sdk_executable (windows_host NeverCompletes)) = ''dart.exe''
   \<and> os_path_basename posixpath (checked_in_sdk_executable
     (example_host ''Linux'' ''/usr/local/bin/gen'' NeverCompletes)) = ''dart''
   \<and> os_path_basename posixpath (checked_in_sdk_executable
     (example_host ''Darwin'' ''/usr/local/bin/gen'' NeverCompletes)) = ''dart''"
  using C3_executable_suffix [of "windows_host NeverCompletes"]
        C3_executable_suffix [of "example_host ''Linux'' ''/usr/local/bin/gen'' NeverCompletes"]
        C3_executable_suffix [of "example_host ''Darwin'' ''/usr/local/bin/gen'' NeverCompletes"]
  by (simp add: example_host_def windows_host_def os_path_def)

text \<open>
  C4. Wherever the launcher script is, the working directory given to the child is the
  parent of the directory that contains the script: when the script's real path has
  the names \<open>cs\<close> under its root, on POSIX as on Windows, the working directory has the
  names of \<open>cs\<close> without the last two under the same root.
\<close>

theorem C4_working_directory:
  assumes "located_at h r cs"
  shows "map cwd (fst (Main h)) = [abs_path (os_path h) r (butlast (butlast cs))]"
  by (simp add: Main_calls located_sdk_dir [OF assms])

theorem C4_working_directory_witness:
  "map cwd (fst (Main (example_host ''Linux'' ''/usr/local/bin/gen'' (CompletedProcess 0)))) =
     [''/sdk'']
   \<and> map cwd (fst (Main (windows_host (CompletedProcess 0)))) = [''C:'' @ bsl # ''sdk'']"
  using C4_working_directory [OF example_located(1), of "CompletedProcess 0"]
        C4_working_directory [OF windows_located, of "CompletedProcess 0"]
  by (simp add: sep_def example_posix windows_nt)



text \<open>
  C6. The claim that the cache directory lies under the tooling directory (the
  directory that contains the launcher script) fails: for the script at
  \<open>/sdk/tools/generate_package_config.py\<close> the tooling directory is \<open>/sdk/tools\<close>
  and \<open>PUB_CACHE\<close> is \<open>/sdk/.dart_tool/sdk_pub_cache\<close>, which is not inside it.
\<close>

theorem C6_cache_under_tooling_directory_counterexample:
  "os_path_dirname posixpath (os_path_realpath
       (example_host ''Linux'' ''/sdk/tools/generate_package_config.py'' (CompletedProcess 0))
       (script_file
         (example_host ''Linux'' ''/sdk/tools/generate_package_config.py'' (CompletedProcess 0))))
     = ''/sdk/tools''
   \<and> env (hd (fst (Main
           (example_host ''Linux'' ''/sdk/tools/generate_package_config.py'' (CompletedProcess 0)))))
         ''PUB_CACHE''
     = Some ''/sdk/.dart_tool/sdk_pub_cache''
   \<and> \<not> inside posixpath ''/sdk/.dart_tool/sdk_pub_cache'' ''/sdk/tools''"
proof -
  let ?h = "example_host ''Linux'' ''/sdk/tools/generate_package_config.py'' (CompletedProcess 0)"
  have r: "is_root posixpath ''/''" and c: "list_all (is_component posixpath) [''sdk'']"
    by (simp_all add: posix_component sep_def)
  have "os_path_dirname posixpath (os_path_realpath ?h (script_file ?h)) = ''/sdk/tools''"
    using located_tools_dir [OF example_located(3), of "CompletedProcess 0"]
    by (simp add: example_posix sep_def)
  moreover have "env (hd (fst (Main ?h))) ''PUB_CACHE'' = Some ''/sdk/.dart_tool/sdk_pub_cache''"
    using pub_cache_path [OF r c] located_sdk_dir [OF example_located(3), of "CompletedProcess 0"]
    by (simp add: Main_calls example_posix sep_def)
  moreover have "\<not> inside posixpath ''/sdk/.dart_tool/sdk_pub_cache'' ''/sdk/tools''"
    by (simp add: inside_def sep_def)
  ultimately show ?thesis by simp
qed

text \<open>
  C6, amended. The two environment variables set for the child are a registry-URL
  override, \<open>PUB_HOSTED_URL\<close>, whose value \<open>http://fake/pub\<close> points to the host
  \<open>fake\<close>, a name that is no resolvable host, and a cache-directory override,
  \<open>PUB_CACHE\<close>, whose value is the path \<open>.dart_tool/sdk_pub_cache\<close> under the parent of
  the directory that contains the launcher script: when the script's real path has the
  names \<open>cs\<close> under its root, on POSIX as on Windows, the cache path has the names of
  \<open>cs\<close> without the last two, followed by \<open>.dart_tool\<close> and \<open>sdk_pub_cache\<close>, and lies
  inside the path of \<open>cs\<close> without the last two.
\<close>

theorem C6_child_environment:
  assumes "located_at h r cs"
  shows "map env (fst (Main h)) =
           [[''PUB_HOSTED_URL'' \<mapsto> ''http://fake/pub'',
             ''PUB_CACHE'' \<mapsto>
               abs_path (os_path h) r (butlast (butlast cs) @ [''.dart_tool''])
                 @ ''/sdk_pub_cache'']]
         \<and> url_host ''http://fake/pub'' = ''fake''
         \<and> path_components (os_path h)
              (abs_path (os_path h) r (butlast (butlast cs) @ [''.dart_tool'']) @ ''/sdk_pub_cache'')
             = butlast (butlast cs) @ [''.dart_tool'', ''sdk_pub_cache'']
         \<and> inside (os_path h)
              (abs_path (os_path h) r (butlast (butlast cs) @ [''.dart_tool'']) @ ''/sdk_pub_cache'')
              (abs_path (os_path h) r (butlast (butlast cs)))"
proof -
  from assms have r: "is_root (os_path h) r"
    and c: "list_all (is_component (os_path h)) (butlast (butlast cs))"
    by (simp_all add: located_at_def list_all_butlast)
  have d: "list_all (is_component (os_path h)) (butlast (butlast cs) @ [''.dart_tool''])"
    using c by (simp add: fixed_components)
  have "map env (fst (Main h)) =
           [[''PUB_HOSTED_URL'' \<mapsto> ''http://fake/pub'',
             ''PUB_CACHE'' \<mapsto>
               abs_path (os_path h) r (butlast (butlast cs) @ [''.dart_tool''])
                 @ ''/sdk_pub_cache'']]"
    by (simp add: Main_calls located_sdk_dir [OF assms] pub_cache_path [OF r c])
  moreover have "url_host ''http://fake/pub'' = ''fake''"
    by (simp add: url_host_def)
  moreover have "path_components (os_path h)
              (abs_path (os_path h) r (butlast (butlast cs) @ [''.dart_tool'']) @ ''/sdk_pub_cache'')
             = butlast (butlast cs) @ [''.dart_tool'', ''sdk_pub_cache'']"
    using components_cache_path [OF r d fixed_components(7)] by simp
  moreover note inside_cache_path [OF r c]
  ultimately show ?thesis by (intro conjI)
qed

theorem C6_child_environment_witness:
  "map env (fst (Main (example_host ''Linux'' ''/usr/local/bin/gen'' (CompletedProcess 0)))) =
     [[''PUB_HOSTED_URL'' \<mapsto> ''http://fake/pub'',
       ''PUB_CACHE'' \<mapsto> ''/sdk/.dart_tool/sdk_pub_cache'']]
   \<and> inside posixpath ''/sdk/.dart_tool/sdk_pub_cache'' ''/sdk''
   \<and> map env (fst (Main (windows_host (CompletedProcess 0)))) =
     [[''PUB_HOSTED_URL'' \<mapsto> ''http://fake/pub'',
       ''PUB_CACHE'' \<mapsto> ''C:'' @ bsl # ''sdk'' @ bsl # ''.dart_tool/sdk_pub_cache'']]
   \<and> inside ntpath (''C:'' @ bsl # ''sdk'' @ bsl # ''.dart_tool/sdk_pub_cache'')
        (''C:'' @ bsl # ''sdk'')"
proof -
  from C6_child_environment [OF example_located(1), of "CompletedProcess 0"]
  have a: "map env (fst (Main (example_host ''Linux'' ''/usr/local/bin/gen'' (CompletedProcess 0)))) =
     [[''PUB_HOSTED_URL'' \<mapsto> ''http://fake/pub'',
       ''PUB_CACHE'' \<mapsto> ''/sdk/.dart_tool/sdk_pub_cache'']]"
    and b: "inside posixpath ''/sdk/.dart_tool/sdk_pub_cache'' ''/sdk''"
    by (simp_all add: example_posix sep_def)
  from C6_child_environment [OF windows_located, of "CompletedProcess 0"]
  have c: "map env (fst (Main (windows_host (CompletedProcess 0)))) =
     [[''PUB_HOSTED_URL'' \<mapsto> ''http://fake/pub'',
       ''PUB_CACHE'' \<mapsto> ''C:'' @ bsl # ''sdk'' @ bsl # ''.dart_tool/sdk_pub_cache'']]"
    and d: "inside ntpath (''C:'' @ bsl # ''sdk'' @ bsl # ''.dart_tool/sdk_pub_cache'')
        (''C:'' @ bsl # ''sdk'')"
    by (simp_all add: windows_nt)
  from a b c d show ?thesis by (intro conjI)
qed

text \<open>
  C7. The vendored tool is at a fixed place relative to the launcher: the tool root is
  \<open>sdks/dart-sdk\<close> under the directory that contains the script, and the executable is
  \<open>dart.exe\<close> (on \<open>Windows\<close>) or \<open>dart\<close> (elsewhere) in the \<open>bin\<close> directory of that
  root, each joined with the separator of the host's path module.
\<close>

theorem C7_vendored_tool_layout:
  assumes "located_at h r cs"
  shows "os_path_dirname (os_path h) (os_path_realpath h (script_file h)) =
           abs_path (os_path h) r (butlast cs)
         \<and> checked_in_sdk_path h = abs_path (os_path h) r (butlast cs @ [''sdks'', ''dart-sdk''])
         \<and> checked_in_sdk_executable h =
             abs_path (os_path h) r (butlast cs @ [''sdks'', ''dart-sdk'', ''bin'',
               if platform_system h = ''Windows'' then ''dart.exe'' else ''dart''])"
  using located_tools_dir [OF assms] located_sdk_path [OF assms] located_executable [OF assms]
  by (simp add: is_windows_def)

theorem C7_vendored_tool_layout_witness:
  "checked_in_sdk_path (example_host ''Linux'' ''/usr/local/bin/gen'' (CompletedProcess 0)) =
     ''/sdk/tools/sdks/dart-sdk''
   \<and> checked_in_sdk_executable (example_host ''Linux'' ''/usr/local/bin/gen'' (CompletedProcess 0)) =
     ''/sdk/tools/sdks/dart-sdk/bin/dart''
   \<and> checked_in_sdk_path (windows_host (CompletedProcess 0)) =
     ''C:'' @ bsl # ''sdk'' @ bsl # ''tools'' @ bsl # ''sdks'' @ bsl # ''dart-sdk''
   \<and> checked_in_sdk_executable (windows_host (CompletedProcess 0)) =
     ''C:'' @ bsl # ''sdk'' @ bsl # ''tools'' @ bsl # ''sdks'' @ bsl # ''dart-sdk''
       @ bsl # ''bin'' @ bsl # ''dart.exe''"
proof -
  have p: "platform_system (example_host ''Linux'' f res) = ''Linux''"
    "platform_system (windows_host res) = ''Windows''" for f res
    by (simp_all add: example_host_def windows_host_def)
  from C7_vendored_tool_layout [OF example_located(1), of "CompletedProcess 0"]
  have a: "checked_in_sdk_path (example_host ''Linux'' ''/usr/local/bin/gen'' (CompletedProcess 0)) =
     ''/sdk/tools/sdks/dart-sdk''"
    "checked_in_sdk_executable (example_host ''Linux'' ''/usr/local/bin/gen'' (CompletedProcess 0)) =
     ''/sdk/tools/sdks/dart-sdk/bin/dart''"
    by (simp_all add: example_posix sep_def p)
  from C7_vendored_tool_layout [OF windows_located, of "CompletedProcess 0"]
  have b: "checked_in_sdk_path (windows_host (CompletedProcess 0)) =
     ''C:'' @ bsl # ''sdk'' @ bsl # ''tools'' @ bsl # ''sdks'' @ bsl # ''dart-sdk''"
    "checked_in_sdk_executable (windows_host (CompletedProcess 0)) =
     ''C:'' @ bsl # ''sdk'' @ bsl # ''tools'' @ bsl # ''sdks'' @ bsl # ''dart-sdk''
       @ bsl # ''bin'' @ bsl # ''dart.exe''"
    by (simp_all add: windows_nt p)
  from a b show ?thesis by (intro conjI)
qed

text \<open>
  C8. When the executable is missing or not executable, \<open>subprocess.run\<close> raises
  (\<open>FileNotFoundError\<close>, \<open>PermissionError\<close>); the launcher catches nothing and
  classifies nothing, so that very exception ends the interpreter, with the status 1,
  which is not zero.
\<close>

theorem C8_missing_executable:
  assumes "fst (Main h) = [c]" and "subprocess_run h c = Raised e"
  shows "snd (Main h) = UncaughtException e
         \<and> exit_status h (snd (Main h)) = Some 1
         \<and> exit_status h (snd (Main h)) \<noteq> Some 0"
  using Main_end [OF assms(1)] assms(2) by simp

theorem C8_missing_executable_witness:
  "snd (Main (example_host ''Linux'' ''/usr/local/bin/gen'' (Raised FileNotFoundError))) =
     UncaughtException FileNotFoundError
   \<and> exit_status (example_host ''Linux'' ''/usr/local/bin/gen'' (Raised PermissionError))
       (snd (Main (example_host ''Linux'' ''/usr/local/bin/gen'' (Raised PermissionError)))) =
     Some 1"
proof -
  let ?h = "\<lambda>e. example_host ''Linux'' ''/usr/local/bin/gen'' (Raised e)"
  have r: "subprocess_run (?h e) c = Raised e" for e c
    by (simp add: example_host_def)
  show ?thesis
    using C8_missing_executable [OF Main_calls r, of FileNotFoundError]
          C8_missing_executable [OF Main_calls r, of PermissionError]
    by simp
qed

text \<open>
  C9. In every invocation the value of \<open>PUB_CACHE\<close> is the working directory of the same
  call joined with \<open>.dart_tool/sdk_pub_cache\<close>, and it lies strictly inside that working
  directory: it is on the same drive, and its names are those of the working directory
  followed by \<open>.dart_tool\<close> and \<open>sdk_pub_cache\<close>.
\<close>

theorem C9_cache_inside_working_directory:
  assumes "located_at h r cs" and "fst (Main h) = [c]"
  shows "env c ''PUB_CACHE'' =
           Some (os_path_join (os_path h) (cwd c) [''.dart_tool/sdk_pub_cache''])
         \<and> path_components (os_path h)
             (os_path_join (os_path h) (cwd c) [''.dart_tool/sdk_pub_cache'']) =
             path_components (os_path h) (cwd c) @ [''.dart_tool'', ''sdk_pub_cache'']
         \<and> inside (os_path h)
             (os_path_join (os_path h) (cwd c) [''.dart_tool/sdk_pub_cache'']) (cwd c)"
proof -
  from assms(1) have r: "is_root (os_path h) r"
    and d: "list_all (is_component (os_path h)) (butlast (butlast cs))"
    by (simp_all add: located_at_def list_all_butlast)
  have b: "list_all (is_component (os_path h)) (butlast (butlast cs) @ [''.dart_tool''])"
    using d by (simp add: fixed_components)
  from assms(2) have c: "cwd c = abs_path (os_path h) r (butlast (butlast cs))"
    and e: "env c ''PUB_CACHE'' =
              Some (os_path_join (os_path h) (cwd c) [''.dart_tool/sdk_pub_cache''])"
    by (auto simp: Main_calls located_sdk_dir [OF assms(1)])
  have "path_components (os_path h)
          (os_path_join (os_path h) (cwd c) [''.dart_tool/sdk_pub_cache'']) =
        path_components (os_path h) (cwd c) @ [''.dart_tool'', ''sdk_pub_cache'']"
    unfolding c pub_cache_path [OF r d]
    using components_cache_path [OF r b fixed_components(7)] components_abs_path [OF r d]
    by simp
  moreover have "inside (os_path h)
          (os_path_join (os_path h) (cwd c) [''.dart_tool/sdk_pub_cache'']) (cwd c)"
    unfolding c pub_cache_path [OF r d] by (rule inside_cache_path [OF r d])
  ultimately show ?thesis using e by simp
qed

theorem C9_cache_inside_working_directory_witness:
  "map (\<lambda>c. (cwd c, env c ''PUB_CACHE''))
     (fst (Main (example_host ''Linux'' ''/home/dev/gen.py'' (CompletedProcess 0)))) =
     [(''/sdk'', Some ''/sdk/.dart_tool/sdk_pub_cache'')]
   \<and> inside posixpath ''/sdk/.dart_tool/sdk_pub_cache'' ''/sdk''
   \<and> map (\<lambda>c. (cwd c, env c ''PUB_CACHE'')) (fst (Main (windows_host (CompletedProcess 0)))) =
     [(''C:'' @ bsl # ''sdk'', Some (''C:'' @ bsl # ''sdk'' @ bsl # ''.dart_tool/sdk_pub_cache''))]
   \<and> inside ntpath (''C:'' @ bsl # ''sdk'' @ bsl # ''.dart_tool/sdk_pub_cache'')
        (''C:'' @ bsl # ''sdk'')"
proof -
  have r: "is_root posixpath ''/''" and c: "list_all (is_component posixpath) [''sdk'']"
    by (simp_all add: posix_component sep_def)
  have c': "list_all (is_component ntpath) [''sdk'']"
    by (simp add: nt_component bsl_def altsep_def)
  let ?h = "example_host ''Linux'' ''/home/dev/gen.py'' (CompletedProcess 0)"
  from C9_cache_inside_working_directory [OF example_located(2) Main_calls, of "CompletedProcess 0"]
    pub_cache_path [OF r c] located_sdk_dir [OF example_located(2), of "CompletedProcess 0"]
  have a: "map (\<lambda>c. (cwd c, env c ''PUB_CACHE'')) (fst (Main ?h)) =
     [(''/sdk'', Some ''/sdk/.dart_tool/sdk_pub_cache'')]"
    and b: "inside posixpath ''/sdk/.dart_tool/sdk_pub_cache'' ''/sdk''"
    by (simp_all add: Main_calls example_posix sep_def)
  let ?w = "windows_host (CompletedProcess 0)"
  from C9_cache_inside_working_directory [OF windows_located Main_calls, of "CompletedProcess 0"]
    pub_cache_path [OF windows_root c'] located_sdk_dir [OF windows_located, of "CompletedProcess 0"]
  have d: "map (\<lambda>c. (cwd c, env c ''PUB_CACHE'')) (fst (Main ?w)) =
     [(''C:'' @ bsl # ''sdk'', Some (''C:'' @ bsl # ''sdk'' @ bsl # ''.dart_tool/sdk_pub_cache''))]"
    and e: "inside ntpath (''C:'' @ bsl # ''sdk'' @ bsl # ''.dart_tool/sdk_pub_cache'')
        (''C:'' @ bsl # ''sdk'')"
    by (simp_all add: Main_calls windows_nt)
  from a b d e show ?thesis by (intro conjI)
qed

text \<open>
  C10. Every path of the call comes from the real path of the script: when two names
  of the script (two symbolic links, say) resolve to the same real path, the launcher
  started under the one and under the other makes the same call, with the same
  executable path, working directory and environment.
\<close>

theorem C10_symlink_independence:
  assumes "os_path_realpath h f1 = os_path_realpath h f2"
  shows "fst (Main (h\<lparr>script_file := f1\<rparr>)) = fst (Main (h\<lparr>script_file := f2\<rparr>))"
  using assms
  by (simp add: Main_calls checked_in_sdk_executable_def checked_in_sdk_path_def is_windows_def
      os_path_def)

theorem C10_symlink_independence_witness:
  "example_realpath ''/usr/local/bin/gen'' = example_realpath ''/home/dev/gen.py''
   \<and> fst (Main (example_host ''Linux'' ''/usr/local/bin/gen'' (CompletedProcess 0))) =
       fst (Main (example_host ''Linux'' ''/home/dev/gen.py'' (CompletedProcess 0)))"
proof -
  let ?h = "example_host ''Linux'' [] (CompletedProcess 0)"
  have e: "os_path_realpath ?h ''/usr/local/bin/gen'' = os_path_realpath ?h ''/home/dev/gen.py''"
    by (simp add: example_host_def example_realpath_def)
  have "?h\<lparr>script_file := f\<rparr> = example_host ''Linux'' f (CompletedProcess 0)" for f
    by (simp add: example_host_def)
  with C10_symlink_independence [OF e] e show ?thesis
    by (simp add: example_host_def)
qed

end
